theory Spec2Isabelle
  imports Complex_Main "HOL-Library.Word"
begin

section \<open>The node's container pools and resource ledger\<close>

text \<open>
  A shallow embedding of package \<open>node\<close> (the pool manager and the resource ledger), of
  \<open>CustomCloudOffloadPolicy.OnArrival\<close> and of two handlers of package \<open>api\<close>.

  Conventions.
  \<^item> \<open>int64\<close> is a 64-bit word; Go's \<open><\<close>, \<open>>=\<close> on it are the signed comparisons
    \<open><s\<close>, \<open>\<le>s\<close>, and \<open>+\<close>, \<open>-\<close> wrap around as Go's do.
  \<^item> \<open>float64\<close> (CPU shares) is modelled by \<open>real\<close>: comparisons, sums and differences
    are exact. The rounding of float64 arithmetic is not modelled.
  \<^item> Every operation of the pool manager runs under the lock of \<open>Resources\<close>; an operation
    is a function from the state before to the state after. Interleavings are not modelled.
  \<^item> A \<open>*list.List\<close> is the list of its element values, front first. A \<open>*ContainerPool\<close>
    is named by its key in \<open>Resources.ContainerPools\<close>; what the code mutates through the
    pointer is written back under that key.
\<close>

type_synonym int64 = "64 word"
type_synonym contID = string

record Function =
  Name :: string
  Runtime :: string
  MemoryMB :: int64
  CPUDemand :: real
  CustomImage :: string
  TarFunctionCode :: string

record warmContainer =
  Expiration :: int64
  wFunction :: string
  wcontID :: contID

record busyContainer =
  bFunction :: string
  bcontID :: contID

record ContainerPool =
  busy :: "busyContainer list"
  ready :: "warmContainer list"

text \<open>
  The ledger \<open>Resources\<close> with its map of pools. The last two fields are not fields of
  the Go value: they record, in call order, the sandbox ids handed to
  \<open>container.Destroy\<close> and those returned by \<open>container.NewContainer\<close>, so that
  theorems can speak about which sandboxes were destroyed and created.
\<close>

record Resources =
  AvailableCPUs :: real
  AvailableMemMB :: int64
  ContainerPools :: "string \<rightharpoonup> ContainerPool"
  DestroyCalls :: "contID list"
  Created :: "contID list"

datatype error = NoWarmFoundErr | OutOfResourcesErr | Errorf string | DriverErr string

record ContainerOptions =
  opt_MemoryMB :: int64
  opt_CPUQuota :: real

record RuntimeInfo =
  Image :: string

text \<open>
  What the pool manager imports and \<open>src/\<close> does not hold, taken as parameters:
  the sandbox driver (package \<open>container\<close>), the function store (\<open>function.GetFunction\<close>,
  a pointer and a found flag as \<open>api.go\<close> uses it: \<open>None\<close> is the nil pointer), and the
  order in which a \<open>range\<close> over the pools map yields its keys. An \<open>error\<close> result is an
  option: \<open>None\<close> is \<open>nil\<close>. \<open>container_GetMemoryMB\<close> returns the memory and whether
  the error is non-nil. The results of \<open>Destroy\<close> and \<open>NewContainer\<close> may depend on the
  calls made before.
\<close>

record env =
  container_GetMemoryMB :: "contID \<Rightarrow> int64 \<times> bool"
  container_Destroy :: "contID list \<Rightarrow> contID \<Rightarrow> string option"
  container_NewContainer :: "contID list \<Rightarrow> string \<Rightarrow> string \<Rightarrow> ContainerOptions \<Rightarrow> error + contID"
  container_RuntimeToInfo :: "string \<rightharpoonup> RuntimeInfo"
  container_CUSTOM_RUNTIME :: string
  function_GetFunction :: "string \<rightharpoonup> Function"
  rangeOrder :: "(string \<rightharpoonup> ContainerPool) \<Rightarrow> string list"

definition newFunctionPool :: ContainerPool where
  "newFunctionPool = \<lparr>busy = [], ready = []\<rparr>"

definition getFunctionPool :: "Function \<Rightarrow> Resources \<Rightarrow> ContainerPool \<times> Resources" where
  "getFunctionPool f s =
     (case ContainerPools s (Name f) of
        Some fp \<Rightarrow> (fp, s)
      | None \<Rightarrow> (newFunctionPool,
                 s\<lparr>ContainerPools := (ContainerPools s)(Name f \<mapsto> newFunctionPool)\<rparr>))"

text \<open>Writing back what the code mutated through the pool pointer \<open>fp\<close>.\<close>

definition setPool :: "string \<Rightarrow> ContainerPool \<Rightarrow> Resources \<Rightarrow> Resources" where
  "setPool k fp s = s\<lparr>ContainerPools := (ContainerPools s)(k \<mapsto> fp)\<rparr>"

text \<open>The pool \<open>getFunctionPool\<close> returns for a name: the stored one, or a new empty one.\<close>

definition poolOf :: "Resources \<Rightarrow> string \<Rightarrow> ContainerPool" where
  "poolOf s k = (case ContainerPools s k of Some fp \<Rightarrow> fp | None \<Rightarrow> newFunctionPool)"

definition putBusyContainer :: "contID \<Rightarrow> string \<Rightarrow> ContainerPool \<Rightarrow> ContainerPool" where
  "putBusyContainer c funcName fp =
     fp\<lparr>busy := busy fp @ [\<lparr>bFunction = funcName, bcontID = c\<rparr>]\<rparr>"

definition putReadyContainer :: "contID \<Rightarrow> string \<Rightarrow> int64 \<Rightarrow> ContainerPool \<Rightarrow> ContainerPool" where
  "putReadyContainer c funcName expiration fp =
     fp\<lparr>ready := ready fp @ [\<lparr>Expiration = expiration, wFunction = funcName, wcontID = c\<rparr>]\<rparr>"

definition getWarmContainer :: "string \<Rightarrow> ContainerPool \<Rightarrow> (contID \<times> bool) \<times> ContainerPool" where
  "getWarmContainer funcName fp =
     (case ready fp of
        [] \<Rightarrow> (([], False), fp)
      | elem # rest \<Rightarrow>
          if wFunction elem \<noteq> funcName then ((''no function'', False), fp)
          else ((wcontID elem, True),
                putBusyContainer (wcontID elem) funcName (fp\<lparr>ready := rest\<rparr>)))"

definition releaseResources :: "real \<Rightarrow> int64 \<Rightarrow> Resources \<Rightarrow> Resources" where
  "releaseResources cpuDemand memDemand s =
     s\<lparr>AvailableCPUs := AvailableCPUs s + cpuDemand,
       AvailableMemMB := AvailableMemMB s + memDemand\<rparr>"

text \<open>A call of \<open>container.Destroy\<close>: its error, and the call recorded.\<close>

definition Destroy :: "env \<Rightarrow> contID \<Rightarrow> Resources \<Rightarrow> string option \<times> Resources" where
  "Destroy e c s = (container_Destroy e (DestroyCalls s) c, s\<lparr>DestroyCalls := DestroyCalls s @ [c]\<rparr>)"

subsection \<open>Eviction: \<open>dismissContainer\<close>\<close>

text \<open>
  \<open>item_pool\<close> is the key of the pool the Go item points to, \<open>item_elem\<close> the position
  the element had in that pool's ready list when it was collected.
\<close>

record itemToDismiss =
  item_contID :: contID
  item_pool :: string
  item_elem :: nat
  item_memory :: int64

text \<open>
  The inner loop of the first phase, over the elements of one ready list from its front:
  \<open>contID\<close> and \<open>memory\<close> were read once, from the front element, before the loop. The
  flag says whether the loop left through \<open>goto cleanup\<close>.
\<close>

fun collectElems ::
  "int64 \<Rightarrow> contID \<Rightarrow> string \<Rightarrow> int64 \<Rightarrow> nat \<Rightarrow> warmContainer list \<Rightarrow>
   int64 \<times> itemToDismiss list \<Rightarrow> bool \<times> int64 \<times> itemToDismiss list" where
  "collectElems requiredMemoryMB c k memory i [] (cleanedMB, items) = (False, cleanedMB, items)"
| "collectElems requiredMemoryMB c k memory i (x # xs) (cleanedMB, items) =
     (let items' = items @ [\<lparr>item_contID = c, item_pool = k, item_elem = i, item_memory = memory\<rparr>];
          cleanedMB' = cleanedMB + memory
      in if requiredMemoryMB \<le>s cleanedMB' then (True, cleanedMB', items')
         else collectElems requiredMemoryMB c k memory (Suc i) xs (cleanedMB', items'))"

text \<open>The first phase (research): the walk over the pools, in the order of the range.\<close>

fun research ::
  "env \<Rightarrow> int64 \<Rightarrow> (string \<rightharpoonup> ContainerPool) \<Rightarrow> string list \<Rightarrow>
   int64 \<times> itemToDismiss list \<Rightarrow> int64 \<times> itemToDismiss list" where
  "research e requiredMemoryMB pools [] acc = acc"
| "research e requiredMemoryMB pools (k # ks) acc =
     (case pools k of
        None \<Rightarrow> research e requiredMemoryMB pools ks acc
      | Some funPool \<Rightarrow>
          (case ready funPool of
             [] \<Rightarrow> research e requiredMemoryMB pools ks acc
           | front # rest \<Rightarrow>
               (let c = wcontID front;
                    memory = fst (container_GetMemoryMB e c)
                in case collectElems requiredMemoryMB c k memory 0 (front # rest) acc of
                     (True, acc') \<Rightarrow> acc'
                   | (False, acc') \<Rightarrow> research e requiredMemoryMB pools ks acc')))"

text \<open>
  \<open>item.pool.ready.Remove(item.elem)\<close> unlinks the element collected in the first phase.
  The items of one pool are its first elements, collected front to back, and the second
  phase removes them in that order: at its turn, each is the front element of its ready
  list. The removal is therefore the removal of the front element.
\<close>

definition removeElem :: "itemToDismiss \<Rightarrow> Resources \<Rightarrow> Resources" where
  "removeElem item s =
     (case ContainerPools s (item_pool item) of
        None \<Rightarrow> s
      | Some fp \<Rightarrow> setPool (item_pool item) (fp\<lparr>ready := tl (ready fp)\<rparr>) s)"

text \<open>The second phase (cleanup), entered when enough memory was found.\<close>

fun cleanup :: "env \<Rightarrow> itemToDismiss list \<Rightarrow> Resources \<Rightarrow> bool \<times> Resources" where
  "cleanup e [] s = (True, s)"
| "cleanup e (item # items) s =
     (let s1 = removeElem item s;
          (err, s2) = Destroy e (item_contID item) s1
      in if err \<noteq> None then (False, s2)
         else cleanup e items (s2\<lparr>AvailableMemMB := AvailableMemMB s2 + item_memory item\<rparr>))"

text \<open>The error \<open>dismissContainer\<close> returns beside the flag is always nil and is left out.\<close>

definition dismissContainer :: "env \<Rightarrow> int64 \<Rightarrow> Resources \<Rightarrow> bool \<times> Resources" where
  "dismissContainer e requiredMemoryMB s =
     (let (cleanedMB, containerToDismiss) =
            research e requiredMemoryMB (ContainerPools s) (rangeOrder e (ContainerPools s)) (0, [])
      in if requiredMemoryMB \<le>s cleanedMB then cleanup e containerToDismiss s
         else (False, s))"

text \<open>
  For stating what the second phase removes: the number of items collected from the pool
  \<open>k\<close>, and the pools once each has lost that many entries from the front of its ready
  list.
\<close>

definition collected :: "string \<Rightarrow> itemToDismiss list \<Rightarrow> nat" where
  "collected k items = length (filter (\<lambda>item. item_pool item = k) items)"

definition dropCollected ::
  "itemToDismiss list \<Rightarrow> (string \<rightharpoonup> ContainerPool) \<Rightarrow> (string \<rightharpoonup> ContainerPool)" where
  "dropCollected items pools =
     (\<lambda>k. map_option (\<lambda>fp. fp\<lparr>ready := drop (collected k items) (ready fp)\<rparr>) (pools k))"

text \<open>
  For stating what the first phase collects: the places of all warm entries in the order
  of the walk, pool by pool in the order \<open>ks\<close>, each pool front to back. A place is the key
  of a pool and a position in its ready list.
\<close>

definition warmPositions :: "(string \<rightharpoonup> ContainerPool) \<Rightarrow> string list \<Rightarrow> (string \<times> nat) list" where
  "warmPositions pools ks =
     concat (map (\<lambda>k. case pools k of
                         None \<Rightarrow> []
                       | Some p \<Rightarrow> map (\<lambda>i. (k, i)) [0..<length (ready p)]) ks)"

subsection \<open>The ledger: \<open>acquireResources\<close>\<close>

definition acquireResources :: "env \<Rightarrow> real \<Rightarrow> int64 \<Rightarrow> bool \<Rightarrow> Resources \<Rightarrow> bool \<times> Resources" where
  "acquireResources e cpuDemand memDemand destroyContainersIfNeeded s =
     (if AvailableCPUs s < cpuDemand then (False, s)
      else if AvailableMemMB s <s memDemand then
        (if \<not> destroyContainersIfNeeded then (False, s)
         else (case dismissContainer e memDemand s of
                 (enoughMem, s1) \<Rightarrow>
                   if \<not> enoughMem then (False, s1)
                   else (True, s1\<lparr>AvailableCPUs := AvailableCPUs s1 - cpuDemand,
                                  AvailableMemMB := AvailableMemMB s1 - memDemand\<rparr>)))
      else (True, s\<lparr>AvailableCPUs := AvailableCPUs s - cpuDemand,
                    AvailableMemMB := AvailableMemMB s - memDemand\<rparr>))"

subsection \<open>\<open>AcquireWarmContainer\<close>, \<open>ReleaseContainer\<close>, \<open>NewContainer\<close>\<close>

definition noFunctionMsg :: "string \<Rightarrow> string" where
  "noFunctionMsg name = ''the container exists, but doesn't have the function '' @ name"

definition AcquireWarmContainer :: "env \<Rightarrow> Function \<Rightarrow> Resources \<Rightarrow> (error + contID) \<times> Resources" where
  "AcquireWarmContainer e f s =
     (let (fp, s1) = getFunctionPool f s;
          ((c, found), fp') = getWarmContainer (Name f) fp;
          s2 = setPool (Name f) fp' s1
      in if \<not> found then
           (if c = ''no function'' then (Inl (Errorf (noFunctionMsg (Name f))), s2)
            else (Inl NoWarmFoundErr, s2))
         else (case acquireResources e (CPUDemand f) 0 False s2 of
                 (ok, s3) \<Rightarrow>
                   if \<not> ok then (Inl OutOfResourcesErr, s3) else (Inr c, s3)))"

text \<open>
  The walk of \<open>ReleaseContainer\<close> over the busy list: the first element with the id is
  removed and its function name returned.
\<close>

fun removeBusy :: "contID \<Rightarrow> busyContainer list \<Rightarrow> busyContainer list \<times> string option" where
  "removeBusy c [] = ([], None)"
| "removeBusy c (b # bs) =
     (if bcontID b = c then (bs, Some (bFunction b))
      else (case removeBusy c bs of (bs', r) \<Rightarrow> (b # bs', r)))"

text \<open>
  \<open>expTime\<close> is \<open>time.Now().Add(d).UnixNano()\<close>, read from the clock and the
  configuration: a parameter. The send on \<open>NodeDoneChan\<close> is not modelled.
\<close>

definition ReleaseContainer :: "contID \<Rightarrow> Function \<Rightarrow> int64 \<Rightarrow> Resources \<Rightarrow> Resources" where
  "ReleaseContainer c f expTime s =
     (let (fp, s1) = getFunctionPool f s;
          (busy', found) = removeBusy c (busy fp);
          fName = (case found of None \<Rightarrow> Name f | Some n \<Rightarrow> n);
          fp' = putReadyContainer c fName expTime (fp\<lparr>busy := busy'\<rparr>)
      in releaseResources (CPUDemand f) 0 (setPool (Name f) fp' s1))"

definition NewContainerWithAcquiredResources ::
  "env \<Rightarrow> Function \<Rightarrow> Resources \<Rightarrow> (error + contID) \<times> Resources" where
  "NewContainerWithAcquiredResources e fun s =
     (case (if Runtime fun = container_CUSTOM_RUNTIME e then Some (CustomImage fun)
            else map_option Image (container_RuntimeToInfo e (Runtime fun))) of
        None \<Rightarrow> (Inl (Errorf (''Invalid runtime: '' @ Runtime fun)), s)
      | Some img \<Rightarrow>
          (case container_NewContainer e (Created s) img (TarFunctionCode fun)
                  \<lparr>opt_MemoryMB = MemoryMB fun, opt_CPUQuota = CPUDemand fun\<rparr> of
             Inl err \<Rightarrow> (Inl err, releaseResources (CPUDemand fun) (MemoryMB fun) s)
           | Inr c \<Rightarrow>
               (let s1 = s\<lparr>Created := Created s @ [c]\<rparr>;
                    (fp, s2) = getFunctionPool fun s1
                in (Inr c, setPool (Name fun) (putBusyContainer c (Name fun) fp) s2))))"

definition NewContainer :: "env \<Rightarrow> Function \<Rightarrow> Resources \<Rightarrow> (error + contID) \<times> Resources" where
  "NewContainer e fun s =
     (case acquireResources e (CPUDemand fun) (MemoryMB fun) True s of
        (ok, s1) \<Rightarrow>
          if \<not> ok then (Inl OutOfResourcesErr, s1)
          else NewContainerWithAcquiredResources e fun s1)"

text \<open>
  The invariant of the pools map that the data model states: every entry of a pool, warm
  or busy, names the function the pool is stored under.
\<close>

definition poolsNamed :: "Resources \<Rightarrow> bool" where
  "poolsNamed s =
     (\<forall>k p. ContainerPools s k = Some p \<longrightarrow>
        (\<forall>w\<in>set (ready p). wFunction w = k) \<and> (\<forall>b\<in>set (busy p). bFunction b = k))"

subsection \<open>\<open>DeleteExpiredContainer\<close>\<close>

text \<open>
  The walk over one ready list: an element with \<open>now > Expiration\<close> is removed, its memory
  credited and its sandbox handed to \<open>Destroy\<close> (an error is only logged); the others are
  kept. The result is the list of the elements kept, which the caller writes back.
\<close>

fun expireReady :: "env \<Rightarrow> int64 \<Rightarrow> warmContainer list \<Rightarrow> Resources \<Rightarrow> warmContainer list \<times> Resources" where
  "expireReady e now [] s = ([], s)"
| "expireReady e now (warmed # ws) s =
     (if Expiration warmed <s now then
        (let memory = fst (container_GetMemoryMB e (wcontID warmed));
             s1 = releaseResources 0 memory s;
             (err, s2) = Destroy e (wcontID warmed) s1
         in expireReady e now ws s2)
      else (case expireReady e now ws s of (kept, s') \<Rightarrow> (warmed # kept, s')))"

fun expirePools :: "env \<Rightarrow> int64 \<Rightarrow> string list \<Rightarrow> Resources \<Rightarrow> Resources" where
  "expirePools e now [] s = s"
| "expirePools e now (k # ks) s =
     (case ContainerPools s k of
        None \<Rightarrow> expirePools e now ks s
      | Some pool \<Rightarrow>
          (case expireReady e now (ready pool) s of
             (kept, s1) \<Rightarrow> expirePools e now ks (setPool k (pool\<lparr>ready := kept\<rparr>) s1)))"

text \<open>\<open>now\<close> is \<open>time.Now().UnixNano()\<close>: a parameter.\<close>

definition DeleteExpiredContainer :: "env \<Rightarrow> int64 \<Rightarrow> Resources \<Rightarrow> Resources" where
  "DeleteExpiredContainer e now s = expirePools e now (rangeOrder e (ContainerPools s)) s"

text \<open>
  For stating what the sweep removes: the warm entries that have expired at \<open>now\<close>, pool
  by pool in the order \<open>ks\<close>, each pool front to back.
\<close>

definition expiredOf :: "int64 \<Rightarrow> (string \<rightharpoonup> ContainerPool) \<Rightarrow> string list \<Rightarrow> warmContainer list" where
  "expiredOf now pools ks =
     concat (map (\<lambda>k. case pools k of
                         None \<Rightarrow> []
                       | Some p \<Rightarrow> filter (\<lambda>w. Expiration w <s now) (ready p)) ks)"

subsection \<open>\<open>ShutdownWarmContainersFor\<close> and \<open>ShutdownAllContainers\<close>\<close>

fun creditReady :: "env \<Rightarrow> warmContainer list \<Rightarrow> Resources \<Rightarrow> Resources" where
  "creditReady e [] s = s"
| "creditReady e (warmed # ws) s =
     creditReady e ws
       (s\<lparr>AvailableMemMB := AvailableMemMB s + fst (container_GetMemoryMB e (wcontID warmed))\<rparr>)"

fun destroyAll :: "env \<Rightarrow> contID list \<Rightarrow> Resources \<Rightarrow> Resources" where
  "destroyAll e [] s = s"
| "destroyAll e (c # cs) s = destroyAll e cs (snd (Destroy e c s))"

text \<open>
  The destructions of \<open>ShutdownWarmContainersFor\<close> run in a goroutine started before the
  function returns; they are recorded here as if they had run when it returns.
\<close>

definition ShutdownWarmContainersFor :: "env \<Rightarrow> Function \<Rightarrow> Resources \<Rightarrow> Resources" where
  "ShutdownWarmContainersFor e f s =
     (case ContainerPools s (Name f) of
        None \<Rightarrow> s
      | Some fp \<Rightarrow>
          (let s1 = creditReady e (ready fp) s;
               containersToDelete = map wcontID (ready fp);
               s2 = setPool (Name f) (fp\<lparr>ready := []\<rparr>) s1
           in destroyAll e containersToDelete s2))"

text \<open>The ready walk of \<open>ShutdownAllContainers\<close>: every element is removed.\<close>

fun shutdownReady :: "env \<Rightarrow> warmContainer list \<Rightarrow> Resources \<Rightarrow> Resources" where
  "shutdownReady e [] s = s"
| "shutdownReady e (warmed # ws) s =
     (let memory = fst (container_GetMemoryMB e (wcontID warmed));
          (err, s1) = Destroy e (wcontID warmed) s
      in shutdownReady e ws (s1\<lparr>AvailableMemMB := AvailableMemMB s1 + memory\<rparr>))"

text \<open>
  The busy walk. Its \<open>pool.ready.Remove(temp)\<close> is given an element of the busy list;
  \<open>List.Remove\<close> of \<open>container/list\<close> unlinks an element only if it belongs to the
  receiver, so the call changes neither list, and the walk returns no new busy list.
  \<open>functionDescriptor\<close> is the pointer \<open>function.GetFunction\<close> returned: reading
  \<open>CPUDemand\<close> through a nil pointer panics, which is the result \<open>None\<close>.
\<close>

fun shutdownBusy :: "env \<Rightarrow> Function option \<Rightarrow> busyContainer list \<Rightarrow> Resources \<Rightarrow> Resources option" where
  "shutdownBusy e functionDescriptor [] s = Some s"
| "shutdownBusy e functionDescriptor (b # bs) s =
     (case container_GetMemoryMB e (bcontID b) of
        (memory, errMem) \<Rightarrow>
          if errMem then shutdownBusy e functionDescriptor bs s
          else (case Destroy e (bcontID b) s of
                  (err, s1) \<Rightarrow>
                    if err \<noteq> None then shutdownBusy e functionDescriptor bs s1
                    else (case functionDescriptor of
                            None \<Rightarrow> None
                          | Some fd \<Rightarrow>
                              shutdownBusy e functionDescriptor bs
                                (s1\<lparr>AvailableMemMB := AvailableMemMB s1 + memory,
                                    AvailableCPUs := AvailableCPUs s1 + CPUDemand fd\<rparr>))))"

fun shutdownPools :: "env \<Rightarrow> string list \<Rightarrow> Resources \<Rightarrow> Resources option" where
  "shutdownPools e [] s = Some s"
| "shutdownPools e (k # ks) s =
     (case ContainerPools s k of
        None \<Rightarrow> shutdownPools e ks s
      | Some pool \<Rightarrow>
          (let s1 = shutdownReady e (ready pool) s;
               s2 = setPool k (pool\<lparr>ready := []\<rparr>) s1
           in case shutdownBusy e (function_GetFunction e k) (busy pool) s2 of
                None \<Rightarrow> None
              | Some s3 \<Rightarrow> shutdownPools e ks s3))"

definition ShutdownAllContainers :: "env \<Rightarrow> Resources \<Rightarrow> Resources option" where
  "ShutdownAllContainers e s = shutdownPools e (rangeOrder e (ContainerPools s)) s"

section \<open>The scheduling policy: \<open>OnArrival\<close>\<close>

record Request =
  Fun :: Function
  Arrival :: int
  CanDoOffloading :: bool
  Async :: bool
  ReqId :: string

datatype action = EXECUTE_REQUEST | OFFLOAD_REQUEST | DROP_REQUEST | OTHER_ACTION

text \<open>The calls \<open>OnArrival\<close> makes into the rest of package \<open>scheduling\<close>.\<close>

datatype call =
  ExecLocally contID bool
  | HandleColdStart
  | HandleCloudOffload
  | DropRequest

text \<open>
  The decision engine and \<open>handleColdStart\<close> are not in \<open>src/\<close>: parameters.
  \<open>handleColdStart\<close> reports success and may change the node's state.
\<close>

record policy =
  de_Decide :: "Request \<Rightarrow> action"
  handleColdStart :: "Request \<Rightarrow> Resources \<Rightarrow> bool \<times> Resources"

definition OnArrival :: "env \<Rightarrow> policy \<Rightarrow> Request \<Rightarrow> Resources \<Rightarrow> call list \<times> Resources" where
  "OnArrival e p r s =
     (let dec = de_Decide p r
      in if dec = EXECUTE_REQUEST then
           (case AcquireWarmContainer e (Fun r) s of
              (Inr containerID, s1) \<Rightarrow> ([ExecLocally containerID True], s1)
            | (Inl err, s1) \<Rightarrow>
                (case handleColdStart p r s1 of
                   (ok, s2) \<Rightarrow>
                     if ok then ([HandleColdStart], s2)
                     else if CanDoOffloading r then ([HandleColdStart, HandleCloudOffload], s2)
                     else ([HandleColdStart, DropRequest], s2)))
         else if dec = OFFLOAD_REQUEST then ([HandleCloudOffload], s)
         else if dec = DROP_REQUEST then ([DropRequest], s)
         else ([], s))"

section \<open>The HTTP handlers \<open>InvokeFunction\<close> and \<open>PollAsyncResult\<close>\<close>

definition digit_char :: "nat \<Rightarrow> char" where
  "digit_char d = char_of (48 + d)"

text \<open>The verb \<open>%d\<close>: the decimal digits of an integer, with a sign when negative.\<close>

fun decimal :: "nat \<Rightarrow> string" where
  "decimal n = (if n < 10 then [digit_char n] else decimal (n div 10) @ [digit_char (n mod 10)])"

declare decimal.simps [simp del]

text \<open>The value of a decimal digit, for reading a numeral back.\<close>

definition digit_val :: "char \<Rightarrow> nat" where
  "digit_val c = of_char c - 48"

definition format_d :: "int \<Rightarrow> string" where
  "format_d i = (if i < 0 then CHR ''-'' # decimal (nat (- i)) else decimal (nat i))"

text \<open>
  An instant is the count of nanoseconds since the epoch. \<open>Time.Nanosecond\<close> is the
  nanosecond offset within the second, in the range 0 to 999999999.
\<close>

definition Nanosecond :: "int \<Rightarrow> int" where
  "Nanosecond t = t mod 1000000000"

text \<open>
  Modelled from the spec: the \<open>String\<close> method of \<open>*function.Function\<close>, which the verb
  \<open>%s\<close> applies to the argument \<open>fun\<close>, is not in \<open>src/\<close>; by the spec the request id
  holds the function's name.
\<close>

definition Function_String :: "Function \<Rightarrow> string" where
  "Function_String f = Name f"

text \<open>
  The request id of \<open>InvokeFunction\<close>:
  \<open>fmt.Sprintf("%s-%s%d", fun, node.NodeIdentifier[len(node.NodeIdentifier)-5:], r.Arrival.Nanosecond())\<close>.
  The slice expression panics when the identifier has fewer than five bytes: \<open>None\<close>.
\<close>

definition makeReqId :: "Function \<Rightarrow> string \<Rightarrow> int \<Rightarrow> string option" where
  "makeReqId f NodeIdentifier arrival =
     (if length NodeIdentifier < 5 then None
      else Some (Function_String f @ ''-'' @ drop (length NodeIdentifier - 5) NodeIdentifier
                  @ format_d (Nanosecond arrival)))"

record InvocationRequest =
  inv_CanDoOffloading :: bool
  inv_Async :: bool

text \<open>
  \<open>InvokeFunction\<close> up to the submission of the request: the function lookup, the
  decoding of the body (\<open>None\<close> is a decoding error other than \<open>io.EOF\<close>), and the
  request built from them at the instant \<open>now\<close>. An asynchronous request is answered
  with its id; a synchronous one is handed to \<open>scheduling.SubmitRequest\<close>, which is not
  in \<open>src/\<close>.
\<close>

datatype invocation =
  NotFound
  | CouldNotParse
  | Panicked
  | AsyncAccepted string
  | Submitted Request

definition InvokeFunction ::
  "env \<Rightarrow> string \<Rightarrow> string \<Rightarrow> InvocationRequest option \<Rightarrow> int \<Rightarrow> invocation" where
  "InvokeFunction e NodeIdentifier funcName body now =
     (case function_GetFunction e funcName of
        None \<Rightarrow> NotFound
      | Some f \<Rightarrow>
          (case body of
             None \<Rightarrow> CouldNotParse
           | Some invocationRequest \<Rightarrow>
               (case makeReqId f NodeIdentifier now of
                  None \<Rightarrow> Panicked
                | Some reqId \<Rightarrow>
                    (let r = \<lparr>Fun = f, Arrival = now,
                              CanDoOffloading = inv_CanDoOffloading invocationRequest,
                              Async = inv_Async invocationRequest, ReqId = reqId\<rparr>
                     in if Async r then AsyncAccepted (ReqId r) else Submitted r))))"

text \<open>
  \<open>PollAsyncResult\<close>. The Etcd client is a parameter: \<open>None\<close> when \<open>GetEtcdClient\<close>
  fails, else the lookup, which fails (\<open>None\<close>) or returns the values stored under the key.
  \<open>len(reqId)\<close> is a Go \<open>int\<close>. A response is its status code and its body.
\<close>

datatype response = JSON nat string | JSONBlob nat string

definition PollAsyncResult :: "(string \<Rightarrow> string list option) option \<Rightarrow> string \<Rightarrow> response" where
  "PollAsyncResult etcd reqId =
     (if int (length reqId) < 0 then JSON 404 []
      else (case etcd of
              None \<Rightarrow> JSON 500 []
            | Some etcdClient \<Rightarrow>
                (case etcdClient (''async/'' @ reqId) of
                   None \<Rightarrow> JSON 500 []
                 | Some kvs \<Rightarrow>
                     if length kvs = 1 then JSONBlob 200 (hd kvs)
                     else JSON 404 ''function not found'')))"

section \<open>Concrete values for the examples\<close>

definition fnF :: Function where
  "fnF = \<lparr>Name = ''f'', Runtime = ''python310'', MemoryMB = 256, CPUDemand = 1,
          CustomImage = [], TarFunctionCode = []\<rparr>"

definition fnG :: Function where
  "fnG = \<lparr>Name = ''g'', Runtime = ''python310'', MemoryMB = 256, CPUDemand = 1,
          CustomImage = [], TarFunctionCode = []\<rparr>"

text \<open>
  A driver that never fails: every sandbox has 256 MB, and the n-th sandbox created
  has the id of n letters c. The pools are ranged over in the order f, g.
\<close>

definition exEnv :: env where
  "exEnv = \<lparr>container_GetMemoryMB = (\<lambda>c. (256, False)),
            container_Destroy = (\<lambda>calls c. None),
            container_NewContainer = (\<lambda>created img code opts. Inr (replicate (Suc (length created)) CHR ''c'')),
            container_RuntimeToInfo = [''python310'' \<mapsto> \<lparr>Image = ''python-image''\<rparr>],
            container_CUSTOM_RUNTIME = ''custom'',
            function_GetFunction = [''f'' \<mapsto> fnF, ''g'' \<mapsto> fnG],
            rangeOrder = (\<lambda>pools. filter (\<lambda>k. pools k \<noteq> None) [''f'', ''g''])\<rparr>"

text \<open>The same driver, except that every destruction fails.\<close>

definition exEnvDestroyFails :: env where
  "exEnvDestroyFails = exEnv\<lparr>container_Destroy := (\<lambda>calls c. Some ''destroy failed'')\<rparr>"

text \<open>The same driver, except that every creation fails.\<close>

definition exEnvCreateFails :: env where
  "exEnvCreateFails = exEnv\<lparr>container_NewContainer := (\<lambda>created img code opts. Inl (DriverErr ''create failed''))\<rparr>"

text \<open>The ledger of a node with one CPU and 512 MB, before any operation.\<close>

definition initial :: Resources where
  "initial = \<lparr>AvailableCPUs = 1, AvailableMemMB = 512, ContainerPools = Map.empty,
              DestroyCalls = [], Created = []\<rparr>"

definition warm :: "string \<Rightarrow> contID \<Rightarrow> int64 \<Rightarrow> warmContainer" where
  "warm name c expiration = \<lparr>Expiration = expiration, wFunction = name, wcontID = c\<rparr>"

text \<open>The pool of f holds one warm sandbox of f, with id c; one CPU and 256 MB are free.\<close>

definition warmF :: Resources where
  "warmF = \<lparr>AvailableCPUs = 1, AvailableMemMB = 256,
            ContainerPools = [''f'' \<mapsto> \<lparr>busy = [], ready = [warm ''f'' ''c'' 100]\<rparr>],
            DestroyCalls = [], Created = [''c'']\<rparr>"

text \<open>The pool of f holds one warm entry, and the entry names the function g.\<close>

definition strayF :: Resources where
  "strayF = \<lparr>AvailableCPUs = 1, AvailableMemMB = 256,
             ContainerPools = [''f'' \<mapsto> \<lparr>busy = [], ready = [warm ''g'' ''c'' 100]\<rparr>],
             DestroyCalls = [], Created = [''c'']\<rparr>"

text \<open>
  The pool of f holds two warm sandboxes, c1 in front of c2, and the pool of g one, c3;
  no memory is free.
\<close>

definition threeWarm :: Resources where
  "threeWarm = \<lparr>AvailableCPUs = 1, AvailableMemMB = 0,
                ContainerPools = [''f'' \<mapsto> \<lparr>busy = [], ready = [warm ''f'' ''c1'' 100, warm ''f'' ''c2'' 200]\<rparr>,
                                  ''g'' \<mapsto> \<lparr>busy = [], ready = [warm ''g'' ''c3'' 300]\<rparr>],
                DestroyCalls = [], Created = [''c1'', ''c2'', ''c3'']\<rparr>"

text \<open>The state \<open>threeWarm\<close> after a sweep at the instant 250: c1 and c2 are gone.\<close>

definition sweptAt250 :: Resources where
  "sweptAt250 = \<lparr>AvailableCPUs = 1, AvailableMemMB = 512,
                 ContainerPools = [''f'' \<mapsto> \<lparr>busy = [], ready = []\<rparr>,
                                   ''g'' \<mapsto> \<lparr>busy = [], ready = [warm ''g'' ''c3'' 300]\<rparr>],
                 DestroyCalls = [''c1'', ''c2''], Created = [''c1'', ''c2'', ''c3'']\<rparr>"

text \<open>A function whose runtime the driver does not know.\<close>

definition fnBad :: Function where
  "fnBad = fnF\<lparr>Runtime := ''cobol''\<rparr>"

text \<open>The pool of f holds one busy sandbox, c, which holds the node's CPU and half its memory.\<close>

definition busyF :: Resources where
  "busyF = \<lparr>AvailableCPUs = 0, AvailableMemMB = 256,
            ContainerPools = [''f'' \<mapsto> \<lparr>busy = [\<lparr>bFunction = ''f'', bcontID = ''c''\<rparr>], ready = []\<rparr>],
            DestroyCalls = [], Created = [''c'']\<rparr>"

text \<open>
  The states of a run from \<open>initial\<close>: a sandbox c is created for f (\<open>run1\<close>) and
  released (\<open>run2\<close>); a sandbox cc is created for g (\<open>run3\<close>); a warm container is asked
  for f, which fails for lack of CPU (\<open>run4\<close>); all containers are shut down (\<open>run5\<close>).
\<close>

definition run1 :: Resources where
  "run1 = \<lparr>AvailableCPUs = 0, AvailableMemMB = 256,
           ContainerPools = [''f'' \<mapsto> \<lparr>busy = [\<lparr>bFunction = ''f'', bcontID = ''c''\<rparr>], ready = []\<rparr>],
           DestroyCalls = [], Created = [''c'']\<rparr>"

definition run2 :: Resources where
  "run2 = \<lparr>AvailableCPUs = 1, AvailableMemMB = 256,
           ContainerPools = [''f'' \<mapsto> \<lparr>busy = [], ready = [warm ''f'' ''c'' 600]\<rparr>],
           DestroyCalls = [], Created = [''c'']\<rparr>"

definition run3 :: Resources where
  "run3 = \<lparr>AvailableCPUs = 0, AvailableMemMB = 0,
           ContainerPools = [''f'' \<mapsto> \<lparr>busy = [], ready = [warm ''f'' ''c'' 600]\<rparr>,
                             ''g'' \<mapsto> \<lparr>busy = [\<lparr>bFunction = ''g'', bcontID = ''cc''\<rparr>], ready = []\<rparr>],
           DestroyCalls = [], Created = [''c'', ''cc'']\<rparr>"

definition run4 :: Resources where
  "run4 = \<lparr>AvailableCPUs = 0, AvailableMemMB = 0,
           ContainerPools = [''f'' \<mapsto> \<lparr>busy = [\<lparr>bFunction = ''f'', bcontID = ''c''\<rparr>], ready = []\<rparr>,
                             ''g'' \<mapsto> \<lparr>busy = [\<lparr>bFunction = ''g'', bcontID = ''cc''\<rparr>], ready = []\<rparr>],
           DestroyCalls = [], Created = [''c'', ''cc'']\<rparr>"

definition run5 :: Resources where
  "run5 = \<lparr>AvailableCPUs = 2, AvailableMemMB = 512,
           ContainerPools = [''f'' \<mapsto> \<lparr>busy = [\<lparr>bFunction = ''f'', bcontID = ''c''\<rparr>], ready = []\<rparr>,
                             ''g'' \<mapsto> \<lparr>busy = [\<lparr>bFunction = ''g'', bcontID = ''cc''\<rparr>], ready = []\<rparr>],
           DestroyCalls = [''c'', ''cc''], Created = [''c'', ''cc'']\<rparr>"

text \<open>A request for f that arrives at the instant 0.\<close>

definition reqF :: "bool \<Rightarrow> Request" where
  "reqF offload = \<lparr>Fun = fnF, Arrival = 0, CanDoOffloading = offload, Async = False, ReqId = ''f-node10''\<rparr>"

text \<open>A policy whose engine always decides \<open>dec\<close> and whose cold start reports \<open>ok\<close>.\<close>

definition exPolicy :: "action \<Rightarrow> bool \<Rightarrow> policy" where
  "exPolicy dec ok = \<lparr>de_Decide = (\<lambda>r. dec), handleColdStart = (\<lambda>r s. (ok, s))\<rparr>"

section \<open>Properties\<close>

subsection \<open>Facts for evaluating the examples\<close>

lemmas pool_defs = getFunctionPool_def setPool_def poolOf_def putBusyContainer_def
  putReadyContainer_def getWarmContainer_def releaseResources_def Destroy_def removeElem_def
  newFunctionPool_def

lemmas example_defs = fnF_def fnG_def fnBad_def exEnv_def exEnvDestroyFails_def exEnvCreateFails_def
  initial_def warm_def warmF_def strayF_def threeWarm_def busyF_def

lemmas word_cmp = word_sless_alt word_sle_eq

subsection \<open>\<open>dismissContainer\<close>\<close>

lemma collectElems_spec:
  "collectElems req c k mem i xs (cl, its) = (flag, cl', its') \<Longrightarrow>
   \<exists>new. its' = its @ new \<and> cl' = cl + sum_list (map item_memory new)
     \<and> length new \<le> length xs
     \<and> (\<forall>x\<in>set new. item_pool x = k \<and> item_contID x = c \<and> item_memory x = mem)
     \<and> map item_elem new = [i..<i + length new]"
proof (induction xs arbitrary: i cl its)
  case Nil
  then show ?case by simp
next
  case (Cons x xs)
  let ?it = "\<lparr>item_contID = c, item_pool = k, item_elem = i, item_memory = mem\<rparr>"
  show ?case
  proof (cases "req \<le>s cl + mem")
    case True
    with Cons.prems have "its' = its @ [?it]" "cl' = cl + mem"
      by (simp_all add: Let_def)
    then show ?thesis
      by (intro exI[of _ "[?it]"]) simp
  next
    case False
    with Cons.prems have "collectElems req c k mem (Suc i) xs (cl + mem, its @ [?it]) = (flag, cl', its')"
      by (simp add: Let_def)
    from Cons.IH [OF this] obtain new where new:
      "its' = (its @ [?it]) @ new" "cl' = cl + mem + sum_list (map item_memory new)"
      "length new \<le> length xs"
      "\<forall>x\<in>set new. item_pool x = k \<and> item_contID x = c \<and> item_memory x = mem"
      "map item_elem new = [Suc i..<Suc i + length new]"
      by blast
    have "[i..<i + Suc (length new)] = i # [Suc i..<Suc i + length new]"
      by (simp add: upt_conv_Cons del: upt_Suc)
    with new show ?thesis
      by (intro exI[of _ "?it # new"]) (simp add: add.assoc del: upt_Suc)
  qed
qed

lemma filter_pool_all: "\<forall>x\<in>set new. item_pool x = k \<Longrightarrow> filter (\<lambda>item. item_pool item = k) new = new"
  by (induction new) auto

lemma filter_pool_none: "\<forall>x\<in>set new. item_pool x \<noteq> k \<Longrightarrow> filter (\<lambda>item. item_pool item = k) new = []"
  by (induction new) auto

lemma research_spec:
  "research e req pools ks (cl, its) = (cl', its') \<Longrightarrow>
   \<exists>new. its' = its @ new \<and> cl' = cl + sum_list (map item_memory new)
     \<and> (\<forall>x\<in>set new. item_pool x \<in> set ks)
     \<and> (distinct ks \<longrightarrow>
          (\<forall>k. map item_elem (filter (\<lambda>item. item_pool item = k) new) = [0..<collected k new]
             \<and> collected k new \<le> length (ready (case pools k of Some fp \<Rightarrow> fp | None \<Rightarrow> newFunctionPool))))"
proof (induction ks arbitrary: cl its)
  case Nil
  then show ?case by (simp add: collected_def)
next
  case (Cons k ks)
  have skip: ?case if "research e req pools ks (cl, its) = (cl', its')"
  proof -
    from Cons.IH [OF that] obtain new where new:
      "its' = its @ new" "cl' = cl + sum_list (map item_memory new)"
      "\<forall>x\<in>set new. item_pool x \<in> set ks"
      "distinct ks \<longrightarrow>
          (\<forall>k. map item_elem (filter (\<lambda>item. item_pool item = k) new) = [0..<collected k new]
             \<and> collected k new \<le> length (ready (case pools k of Some fp \<Rightarrow> fp | None \<Rightarrow> newFunctionPool)))"
      by blast
    then show ?thesis
      by (intro exI[of _ new]) auto
  qed
  show ?case
  proof (cases "pools k")
    case None
    with Cons.prems skip show ?thesis by simp
  next
    case (Some funPool)
    show ?thesis
    proof (cases "ready funPool")
      case Nil
      with Some Cons.prems skip show ?thesis by simp
    next
      case (Cons front rest)
      let ?c = "wcontID front"
      let ?m = "fst (container_GetMemoryMB e ?c)"
      obtain flag cl1 its1 where ce: "collectElems req ?c k ?m 0 (front # rest) (cl, its) = (flag, cl1, its1)"
        by (metis prod_cases3)
      from collectElems_spec [OF ce] obtain blk where blk:
        "its1 = its @ blk" "cl1 = cl + sum_list (map item_memory blk)"
        "length blk \<le> length (front # rest)"
        "\<forall>x\<in>set blk. item_pool x = k \<and> item_contID x = ?c \<and> item_memory x = ?m"
        "map item_elem blk = [0..<0 + length blk]"
        by blast
      have blk_k: "filter (\<lambda>item. item_pool item = k) blk = blk"
        using blk(4) by (intro filter_pool_all) simp
      have blk_other: "filter (\<lambda>item. item_pool item = k') blk = []" if "k' \<noteq> k" for k'
        using blk(4) that by (intro filter_pool_none) auto
      show ?thesis
      proof (cases flag)
        case True
        with \<open>research e req pools (k # ks) (cl, its) = (cl', its')\<close> Some Cons ce
        have "cl' = cl1" "its' = its1" by (simp_all add: Let_def)
        with blk show ?thesis
          apply (intro exI[of _ blk])
          apply (auto simp: collected_def blk_k blk_other Some Cons)
          subgoal for k' by (cases "k' = k") (simp_all add: blk_k blk_other)
          subgoal for k' by (cases "k' = k") (simp_all add: blk_k blk_other Some Cons)
          done
      next
        case False
        with \<open>research e req pools (k # ks) (cl, its) = (cl', its')\<close> Some Cons ce
        have "research e req pools ks (cl1, its1) = (cl', its')" by (simp add: Let_def)
        from Cons.IH [OF this] obtain new where new:
          "its' = its1 @ new" "cl' = cl1 + sum_list (map item_memory new)"
          "\<forall>x\<in>set new. item_pool x \<in> set ks"
          "distinct ks \<longrightarrow>
            (\<forall>k. map item_elem (filter (\<lambda>item. item_pool item = k) new) = [0..<collected k new]
               \<and> collected k new \<le> length (ready (case pools k of Some fp \<Rightarrow> fp | None \<Rightarrow> newFunctionPool)))"
          by blast
        have new_k: "filter (\<lambda>item. item_pool item = k) new = []" if "distinct (k # ks)"
          using new(3) that by (intro filter_pool_none) auto
        show ?thesis
          using blk new
          apply (intro exI[of _ "blk @ new"])
          apply (auto simp: add.assoc)
          subgoal for k' by (cases "k' = k") (simp_all add: blk_k blk_other new_k collected_def)
          subgoal for k' by (cases "k' = k") (simp_all add: blk_k blk_other new_k collected_def Some Cons)
          done
      qed
    qed
  qed
qed


lemma dropCollected_Nil: "dropCollected [] pools = pools"
proof
  fix k show "dropCollected [] pools k = pools k"
    by (cases "pools k") (simp_all add: dropCollected_def collected_def)
qed

lemma removeElem_pools:
  "ContainerPools (removeElem item s) = dropCollected [item] (ContainerPools s)"
proof
  fix k
  show "ContainerPools (removeElem item s) k = dropCollected [item] (ContainerPools s) k"
    by (cases "ContainerPools s (item_pool item)"; cases "ContainerPools s k")
       (auto simp: removeElem_def dropCollected_def collected_def setPool_def drop_Suc)
qed

lemma dropCollected_Cons:
  "dropCollected items (dropCollected [item] pools) = dropCollected (item # items) pools"
proof
  fix k
  show "dropCollected items (dropCollected [item] pools) k = dropCollected (item # items) pools k"
    by (cases "pools k") (auto simp: dropCollected_def collected_def)
qed

lemma removeElem_eq:
  "removeElem item s = s\<lparr>ContainerPools := dropCollected [item] (ContainerPools s)\<rparr>"
proof -
  have "removeElem item s = s\<lparr>ContainerPools := ContainerPools (removeElem item s)\<rparr>"
    by (simp add: removeElem_def setPool_def split: option.splits)
  then show ?thesis by (simp add: removeElem_pools)
qed

lemma cleanup_True:
  "cleanup e items s = (True, s') \<Longrightarrow>
   s' = s\<lparr>ContainerPools := dropCollected items (ContainerPools s),
          AvailableMemMB := AvailableMemMB s + sum_list (map item_memory items),
          DestroyCalls := DestroyCalls s @ map item_contID items\<rparr>"
proof (induction items arbitrary: s)
  case Nil
  then show ?case by (simp add: dropCollected_Nil)
next
  case (Cons item items)
  let ?s2 = "s\<lparr>ContainerPools := dropCollected [item] (ContainerPools s),
               DestroyCalls := DestroyCalls s @ [item_contID item],
               AvailableMemMB := AvailableMemMB s + item_memory item\<rparr>"
  from Cons.prems have "cleanup e items ?s2 = (True, s')"
    by (simp add: Let_def Destroy_def removeElem_eq split: if_splits)
  from Cons.IH [OF this] show ?case
    by (simp add: dropCollected_Cons add.assoc)
qed

lemma cleanup_False:
  "cleanup e items s = (False, s') \<Longrightarrow>
   \<exists>j<length items.
      container_Destroy e (DestroyCalls s @ map item_contID (take j items)) (item_contID (items ! j)) \<noteq> None
    \<and> s' = s\<lparr>ContainerPools := dropCollected (take (Suc j) items) (ContainerPools s),
             AvailableMemMB := AvailableMemMB s + sum_list (map item_memory (take j items)),
             DestroyCalls := DestroyCalls s @ map item_contID (take (Suc j) items)\<rparr>"
proof (induction items arbitrary: s)
  case Nil
  then show ?case by simp
next
  case (Cons item items)
  show ?case
  proof (cases "container_Destroy e (DestroyCalls s) (item_contID item)")
    case (Some msg)
    with Cons.prems have "s' = s\<lparr>ContainerPools := dropCollected [item] (ContainerPools s),
               DestroyCalls := DestroyCalls s @ [item_contID item]\<rparr>"
      by (simp add: Let_def Destroy_def removeElem_eq)
    with Some show ?thesis
      by (intro exI[of _ 0]) simp
  next
    case None
    let ?s2 = "s\<lparr>ContainerPools := dropCollected [item] (ContainerPools s),
               DestroyCalls := DestroyCalls s @ [item_contID item],
               AvailableMemMB := AvailableMemMB s + item_memory item\<rparr>"
    from Cons.prems None have "cleanup e items ?s2 = (False, s')"
      by (simp add: Let_def Destroy_def removeElem_eq)
    from Cons.IH [OF this] obtain j where j: "j < length items"
      "container_Destroy e (DestroyCalls ?s2 @ map item_contID (take j items)) (item_contID (items ! j)) \<noteq> None"
      "s' = ?s2\<lparr>ContainerPools := dropCollected (take (Suc j) items) (ContainerPools ?s2),
             AvailableMemMB := AvailableMemMB ?s2 + sum_list (map item_memory (take j items)),
             DestroyCalls := DestroyCalls ?s2 @ map item_contID (take (Suc j) items)\<rparr>"
      by blast
    have dc: "dropCollected (take (Suc j) items) (dropCollected [item] (ContainerPools s))
              = dropCollected (item # take (Suc j) items) (ContainerPools s)"
      by (rule dropCollected_Cons)
    from j show ?thesis
      by (intro exI[of _ "Suc j"]) (simp add: dc add.assoc)
  qed
qed

lemma cleanup_all_succeed:
  "cleanup e items s = (True, s') \<Longrightarrow> j < length items \<Longrightarrow>
   container_Destroy e (DestroyCalls s @ map item_contID (take j items)) (item_contID (items ! j)) = None"
proof (induction items arbitrary: s j)
  case Nil
  then show ?case by simp
next
  case (Cons item items)
  let ?s2 = "s\<lparr>ContainerPools := dropCollected [item] (ContainerPools s),
               DestroyCalls := DestroyCalls s @ [item_contID item],
               AvailableMemMB := AvailableMemMB s + item_memory item\<rparr>"
  from Cons.prems(1) have ok: "container_Destroy e (DestroyCalls s) (item_contID item) = None"
    and rest: "cleanup e items ?s2 = (True, s')"
    by (simp_all add: Let_def Destroy_def removeElem_eq split: if_splits)
  show ?case
  proof (cases j)
    case 0
    with ok show ?thesis by simp
  next
    case (Suc j')
    with Cons.prems(2) have "j' < length items" by simp
    from Cons.IH [OF rest this] Suc show ?thesis by simp
  qed
qed

lemma collectElems_walk:
  "collectElems n c k mem i xs (cl, its) = (flag, cl', its') \<Longrightarrow>
   \<exists>m. its' = its @ map (\<lambda>j. \<lparr>item_contID = c, item_pool = k, item_elem = j, item_memory = mem\<rparr>) [i..<i + m]
     \<and> cl' = cl + of_nat m * mem
     \<and> m \<le> length xs \<and> (xs \<noteq> [] \<longrightarrow> 0 < m)
     \<and> (\<forall>m'. 0 < m' \<and> m' < m \<longrightarrow> \<not> n \<le>s cl + of_nat m' * mem)
     \<and> (flag \<longrightarrow> n \<le>s cl')
     \<and> (\<not> flag \<longrightarrow> m = length xs \<and> (0 < m \<longrightarrow> \<not> n \<le>s cl'))"
proof (induction xs arbitrary: i cl its)
  case Nil
  then show ?case by (intro exI[of _ 0]) simp
next
  case (Cons x xs)
  let ?it = "\<lparr>item_contID = c, item_pool = k, item_elem = i, item_memory = mem\<rparr>"
  show ?case
  proof (cases "n \<le>s cl + mem")
    case True
    with Cons.prems have "its' = its @ [?it]" "cl' = cl + mem" "flag"
      by (simp_all add: Let_def)
    with True show ?thesis
      by (intro exI[of _ 1]) simp
  next
    case False
    with Cons.prems have "collectElems n c k mem (Suc i) xs (cl + mem, its @ [?it]) = (flag, cl', its')"
      by (simp add: Let_def)
    from Cons.IH [OF this] obtain m where m:
      "its' = (its @ [?it]) @ map (\<lambda>j. \<lparr>item_contID = c, item_pool = k, item_elem = j, item_memory = mem\<rparr>) [Suc i..<Suc i + m]"
      "cl' = cl + mem + of_nat m * mem"
      "m \<le> length xs"
      "\<forall>m'. 0 < m' \<and> m' < m \<longrightarrow> \<not> n \<le>s cl + mem + of_nat m' * mem"
      "flag \<longrightarrow> n \<le>s cl'"
      "\<not> flag \<longrightarrow> m = length xs \<and> (0 < m \<longrightarrow> \<not> n \<le>s cl')"
      by blast
    have upt: "[i..<i + Suc m] = i # [Suc i..<Suc i + m]"
      by (simp add: upt_conv_Cons del: upt_Suc)
    have sum: "cl + mem + of_nat j * mem = cl + of_nat (Suc j) * mem" for j
      by (simp add: algebra_simps)
    have early: "\<not> n \<le>s cl + of_nat m' * mem" if "0 < m'" "m' < Suc m" for m'
    proof (cases m')
      case 0
      with that show ?thesis by simp
    next
      case (Suc j)
      show ?thesis
      proof (cases "j = 0")
        case True
        with Suc False show ?thesis by simp
      next
        case nz: False
        with that Suc m(4) have "\<not> n \<le>s cl + mem + of_nat j * mem" by simp
        with Suc show ?thesis by (simp add: sum)
      qed
    qed
    have last: "\<not> flag \<longrightarrow> Suc m = length (x # xs) \<and> (0 < Suc m \<longrightarrow> \<not> n \<le>s cl')"
    proof
      assume nf: "\<not> flag"
      show "Suc m = length (x # xs) \<and> (0 < Suc m \<longrightarrow> \<not> n \<le>s cl')"
      proof (cases "m = 0")
        case True
        with nf m(2,6) False show ?thesis by simp
      next
        case nz: False
        with nf m(6) show ?thesis by simp
      qed
    qed
    have A: "its' = its @ map (\<lambda>j. \<lparr>item_contID = c, item_pool = k, item_elem = j, item_memory = mem\<rparr>) [i..<i + Suc m]"
      by (subst upt) (simp add: m(1))
    have B: "cl' = cl + of_nat (Suc m) * mem"
      by (simp only: m(2) sum)
    have C: "Suc m \<le> length (x # xs) \<and> (x # xs \<noteq> [] \<longrightarrow> 0 < Suc m)"
      using m(3) by simp
    have D: "\<forall>m'. 0 < m' \<and> m' < Suc m \<longrightarrow> \<not> n \<le>s cl + of_nat m' * mem"
      using early by blast
    from A B C D m(5) last show ?thesis
      by blast
  qed
qed


lemma warmPositions_Cons:
  "warmPositions pools (k # ks) =
     (case pools k of None \<Rightarrow> [] | Some p \<Rightarrow> map (\<lambda>i. (k, i)) [0..<length (ready p)]) @ warmPositions pools ks"
  by (simp add: warmPositions_def)

lemma block_sum:
  "sum_list (map item_memory (take j (map (\<lambda>j. \<lparr>item_contID = c, item_pool = k, item_elem = j, item_memory = mem\<rparr>) [0..<m])))
     = of_nat (min j m) * mem"
  by (simp add: take_map o_def sum_list_triv min.commute)

lemma block_places:
  "map (\<lambda>item. (item_pool item, item_elem item))
     (map (\<lambda>j. \<lparr>item_contID = c, item_pool = k, item_elem = j, item_memory = mem\<rparr>) [0..<m])
     = map (\<lambda>i. (k, i)) [0..<m]"
  by (simp add: o_def)

lemma research_walk:
  "research e n pools ks (cl, its) = (cl', its') \<Longrightarrow>
   \<exists>new. its' = its @ new
     \<and> map (\<lambda>item. (item_pool item, item_elem item)) new = take (length new) (warmPositions pools ks)
     \<and> (warmPositions pools ks \<noteq> [] \<longrightarrow> new \<noteq> [])
     \<and> (\<forall>item\<in>set new. \<exists>p. pools (item_pool item) = Some p \<and> ready p \<noteq> []
            \<and> item_contID item = wcontID (hd (ready p))
            \<and> item_memory item = fst (container_GetMemoryMB e (wcontID (hd (ready p)))))
     \<and> (\<forall>m. 0 < m \<and> m < length new \<longrightarrow> \<not> n \<le>s cl + sum_list (map item_memory (take m new)))
     \<and> cl' = cl + sum_list (map item_memory new)
     \<and> (\<not> n \<le>s cl' \<longrightarrow> length new = length (warmPositions pools ks))"
proof (induction ks arbitrary: cl its)
  case Nil
  then show ?case by (intro exI[of _ "[]"]) (simp add: warmPositions_def)
next
  case (Cons k ks)
  have skip: ?case
    if r: "research e n pools ks (cl, its) = (cl', its')" and w: "warmPositions pools (k # ks) = warmPositions pools ks"
    using Cons.IH [OF r] unfolding w .
  show ?case
  proof (cases "pools k")
    case None
    with Cons.prems show ?thesis
      by (intro skip) (simp_all add: warmPositions_Cons)
  next
    case (Some funPool)
    show ?thesis
    proof (cases "ready funPool")
      case Nil
      with Some Cons.prems show ?thesis
        by (intro skip) (simp_all add: warmPositions_Cons)
    next
      case (Cons front rest)
      define c where "c = wcontID front"
      define mem where "mem = fst (container_GetMemoryMB e c)"
      define F where "F = (\<lambda>j. \<lparr>item_contID = c, item_pool = k, item_elem = j, item_memory = mem\<rparr>)"
      define W where "W = warmPositions pools ks"
      define L where "L = length (ready funPool)"
      obtain flag cl1 its1 where ce: "collectElems n c k mem 0 (front # rest) (cl, its) = (flag, cl1, its1)"
        by (metis prod_cases3)
      from collectElems_walk [OF ce] obtain m where m:
        "its1 = its @ map F [0..<m]" "cl1 = cl + of_nat m * mem" "m \<le> L" "0 < m"
        "\<forall>m'. 0 < m' \<and> m' < m \<longrightarrow> \<not> n \<le>s cl + of_nat m' * mem"
        "flag \<longrightarrow> n \<le>s cl1" "\<not> flag \<longrightarrow> m = L \<and> \<not> n \<le>s cl1"
        unfolding F_def L_def Cons by auto
      have wp: "warmPositions pools (k # ks) = map (\<lambda>i. (k, i)) [0..<L] @ W"
        by (simp add: warmPositions_Cons Some L_def W_def)
      have places: "map (\<lambda>item. (item_pool item, item_elem item)) (map F [0..<m]) = map (\<lambda>i. (k, i)) [0..<m]"
        unfolding F_def by (rule block_places)
      have tsum: "sum_list (map item_memory (take j (map F [0..<m]))) = of_nat (min j m) * mem" for j
        unfolding F_def by (rule block_sum)
      have fsum: "sum_list (map item_memory (map F [0..<m])) = of_nat m * mem"
        using tsum [of m] by simp
      have fsum': "sum_list (map (item_memory \<circ> F) [0..<m]) = of_nat m * mem"
        using fsum by simp
      have blk_items: "\<forall>item\<in>set (map F [0..<m]). \<exists>p. pools (item_pool item) = Some p \<and> ready p \<noteq> []
            \<and> item_contID item = wcontID (hd (ready p))
            \<and> item_memory item = fst (container_GetMemoryMB e (wcontID (hd (ready p))))"
        by (auto simp: F_def Some Cons c_def mem_def)
      have take_blk: "take m (map (\<lambda>i. (k, i)) [0..<L] @ W) = map (\<lambda>i. (k, i)) [0..<m]"
        using m(3) by (simp add: take_map min_def)
      have blk_early: "\<not> n \<le>s cl + sum_list (map item_memory (take j (map F [0..<m])))" if "0 < j" "j < m" for j
        using m(5) that by (simp add: tsum min_def)
      show ?thesis
      proof (cases flag)
        case True
        with \<open>research e n pools (k # ks) (cl, its) = (cl', its')\<close> Some Cons ce
        have res: "cl' = cl1" "its' = its1"
          by (simp_all add: Let_def c_def mem_def)
        have Q1: "its' = its @ map F [0..<m]"
          using res m(1) by simp
        have Q2: "map (\<lambda>item. (item_pool item, item_elem item)) (map F [0..<m])
                    = take (length (map F [0..<m])) (warmPositions pools (k # ks))"
          unfolding places wp using take_blk by simp
        have Q3: "map F [0..<m] \<noteq> []"
          using m(4) by simp
        have Q5: "\<forall>j. 0 < j \<and> j < length (map F [0..<m]) \<longrightarrow>
                    \<not> n \<le>s cl + sum_list (map item_memory (take j (map F [0..<m])))"
          using blk_early by simp
        have Q6: "cl' = cl + sum_list (map item_memory (map F [0..<m]))"
          unfolding fsum using res m(2) by simp
        have Q7: "\<not> n \<le>s cl' \<longrightarrow> length (map F [0..<m]) = length (warmPositions pools (k # ks))"
          using True m(6) res by simp
        from Q1 Q2 Q3 blk_items Q5 Q6 Q7 show ?thesis
          by (intro exI[of _ "map F [0..<m]"]) blast
      next
        case False
        with \<open>research e n pools (k # ks) (cl, its) = (cl', its')\<close> Some Cons ce
        have "research e n pools ks (cl1, its1) = (cl', its')"
          by (simp add: Let_def c_def mem_def)
        from Cons.IH [OF this] obtain new where new:
          "its' = its1 @ new"
          "map (\<lambda>item. (item_pool item, item_elem item)) new = take (length new) W"
          "\<forall>item\<in>set new. \<exists>p. pools (item_pool item) = Some p \<and> ready p \<noteq> []
            \<and> item_contID item = wcontID (hd (ready p))
            \<and> item_memory item = fst (container_GetMemoryMB e (wcontID (hd (ready p))))"
          "\<forall>j. 0 < j \<and> j < length new \<longrightarrow> \<not> n \<le>s cl1 + sum_list (map item_memory (take j new))"
          "cl' = cl1 + sum_list (map item_memory new)"
          "\<not> n \<le>s cl' \<longrightarrow> length new = length W"
          unfolding W_def by blast
        from False m(7) have mL: "m = L" and nle: "\<not> n \<le>s cl1" by simp_all
        have P1: "its' = its @ (map F [0..<m] @ new)"
          using new(1) m(1) by simp
        have P2: "map (\<lambda>item. (item_pool item, item_elem item)) (map F [0..<m] @ new)
                    = take (length (map F [0..<m] @ new)) (warmPositions pools (k # ks))"
          unfolding wp map_append places using new(2) by (simp add: mL)
        have P3: "map F [0..<m] @ new \<noteq> []"
          using m(4) by simp
        have P4: "\<forall>item\<in>set (map F [0..<m] @ new). \<exists>p. pools (item_pool item) = Some p \<and> ready p \<noteq> []
            \<and> item_contID item = wcontID (hd (ready p))
            \<and> item_memory item = fst (container_GetMemoryMB e (wcontID (hd (ready p))))"
          using blk_items new(3) by auto
        have P5: "\<not> n \<le>s cl + sum_list (map item_memory (take j (map F [0..<m] @ new)))"
          if j: "0 < j" "j < length (map F [0..<m] @ new)" for j
        proof (cases "j < m")
          case True
          with blk_early [OF j(1)] show ?thesis by simp
        next
          case ge: False
          show ?thesis
          proof (cases "j = m")
            case True
            with nle m(2) show ?thesis by (simp add: fsum')
          next
            case ne: False
            with ge j have "0 < j - m" "j - m < length new" by simp_all
            with new(4) have "\<not> n \<le>s cl1 + sum_list (map item_memory (take (j - m) new))" by blast
            with ge m(2) show ?thesis by (simp add: fsum' add.assoc)
          qed
        qed
        have P6: "cl' = cl + sum_list (map item_memory (map F [0..<m] @ new))"
          unfolding map_append sum_list_append fsum using new(5) m(2) by (simp add: add.assoc)
        have P7: "\<not> n \<le>s cl' \<longrightarrow> length (map F [0..<m] @ new) = length (warmPositions pools (k # ks))"
          using new(6) by (simp add: wp mL)
        from P1 P2 P3 P4 P5 P6 P7 show ?thesis
          by (intro exI[of _ "map F [0..<m] @ new"]) blast
      qed
    qed
  qed
qed

lemma research_warmF:
  "research exEnv 256 (ContainerPools warmF) (rangeOrder exEnv (ContainerPools warmF)) (0, [])
     = (256, [\<lparr>item_contID = ''c'', item_pool = ''f'', item_elem = 0, item_memory = 256\<rparr>])"
  by (simp add: example_defs word_cmp Let_def)

lemma dismiss_warmF:
  "dismissContainer exEnv 256 warmF
     = (True, warmF\<lparr>ContainerPools := [''f'' \<mapsto> \<lparr>busy = [], ready = []\<rparr>],
                     AvailableMemMB := 512, DestroyCalls := [''c'']\<rparr>)"
  by (simp add: dismissContainer_def research_warmF)
     (simp add: example_defs pool_defs word_cmp)

lemma research_threeWarm:
  "research exEnv 512 (ContainerPools threeWarm) (rangeOrder exEnv (ContainerPools threeWarm)) (0, [])
     = (512, [\<lparr>item_contID = ''c1'', item_pool = ''f'', item_elem = 0, item_memory = 256\<rparr>,
              \<lparr>item_contID = ''c1'', item_pool = ''f'', item_elem = 1, item_memory = 256\<rparr>])"
  by (simp add: example_defs word_cmp Let_def)

lemma research_threeWarm_fails:
  "research exEnvDestroyFails 512 (ContainerPools threeWarm) (rangeOrder exEnvDestroyFails (ContainerPools threeWarm)) (0, [])
     = (512, [\<lparr>item_contID = ''c1'', item_pool = ''f'', item_elem = 0, item_memory = 256\<rparr>,
              \<lparr>item_contID = ''c1'', item_pool = ''f'', item_elem = 1, item_memory = 256\<rparr>])"
  by (simp add: example_defs word_cmp Let_def)

lemma research_threeWarm_short:
  "research exEnv 1024 (ContainerPools threeWarm) (rangeOrder exEnv (ContainerPools threeWarm)) (0, [])
     = (768, [\<lparr>item_contID = ''c1'', item_pool = ''f'', item_elem = 0, item_memory = 256\<rparr>,
              \<lparr>item_contID = ''c1'', item_pool = ''f'', item_elem = 1, item_memory = 256\<rparr>,
              \<lparr>item_contID = ''c3'', item_pool = ''g'', item_elem = 0, item_memory = 256\<rparr>])"
  by (simp add: example_defs word_cmp Let_def)

lemma dismiss_threeWarm:
  "dismissContainer exEnv 512 threeWarm
     = (True, threeWarm\<lparr>ContainerPools := (ContainerPools threeWarm)(''f'' \<mapsto> \<lparr>busy = [], ready = []\<rparr>),
                         AvailableMemMB := 512, DestroyCalls := [''c1'', ''c1'']\<rparr>)"
  by (simp add: dismissContainer_def research_threeWarm)
     (simp add: example_defs pool_defs word_cmp)

lemma dismiss_threeWarm_fails:
  "dismissContainer exEnvDestroyFails 512 threeWarm
     = (False, threeWarm\<lparr>ContainerPools := (ContainerPools threeWarm)
                              (''f'' \<mapsto> \<lparr>busy = [], ready = [warm ''f'' ''c2'' 200]\<rparr>),
                          DestroyCalls := [''c1'']\<rparr>)"
  by (simp add: dismissContainer_def research_threeWarm_fails)
     (simp add: example_defs pool_defs word_cmp)

lemma dismiss_threeWarm_short:
  "dismissContainer exEnv 1024 threeWarm = (False, threeWarm)"
  by (simp add: dismissContainer_def research_threeWarm_short word_cmp)

text \<open>
  Claim C1, as the code has it. Write \<open>(cleanedMB, items)\<close> for what the first phase
  computes and call \<^emph>\<open>warm positions\<close> the pairs (pool, index in its ready list), pool by
  pool in range order and front to back within a pool.

  The first phase. The items stand for a prefix of the warm positions, so they are
  collected from the front; \<open>cleanedMB\<close> is the sum of their memory; when there is a warm
  entry at all, at least one item is collected; the walk stops at the first item with
  which the sum reaches the need (no shorter non-empty prefix reaches it), and when the
  need is not reached every warm position has been collected. Every item carries the
  memory and the sandbox id of the front entry of its pool, read once per pool; for the
  item of a front entry this is the entry's own sandbox.

  The second phase.
  \<^item> If \<open>cleanedMB\<close> is below the need, \<open>dismissContainer\<close> returns false and the state is
    unchanged.
  \<^item> If it returns true, \<open>cleanedMB\<close> is at least the need, every collected entry has left
    its ready list, \<open>Destroy\<close> was called once for each item, on the id the item holds, and
    the memory credited is \<open>cleanedMB\<close>; every one of these calls succeeded, and nothing
    else changed. When only front entries were collected, the sandboxes destroyed are
    exactly those of the collected entries, in the order of collection.
  \<^item> If enough was collected and it returns false, the destruction of some item \<open>j\<close>
    failed: the entries of the items up to and including \<open>j\<close> have left their ready
    lists, \<open>Destroy\<close> was called for each of them, and the memory of the items before \<open>j\<close>
    was credited.
\<close>

theorem dismissContainer_two_phase:
  assumes "research e n (ContainerPools s) (rangeOrder e (ContainerPools s)) (0, []) = (cleanedMB, items)"
      and "dismissContainer e n s = (res, s')"
  shows "cleanedMB = sum_list (map item_memory items)
    \<and> (\<not> n \<le>s cleanedMB \<longrightarrow> \<not> res \<and> s' = s)
    \<and> (res \<longrightarrow>
          n \<le>s cleanedMB
        \<and> s' = s\<lparr>ContainerPools := dropCollected items (ContainerPools s),
                 AvailableMemMB := AvailableMemMB s + cleanedMB,
                 DestroyCalls := DestroyCalls s @ map item_contID items\<rparr>)
    \<and> (n \<le>s cleanedMB \<and> \<not> res \<longrightarrow>
          (\<exists>j<length items.
              container_Destroy e (DestroyCalls s @ map item_contID (take j items)) (item_contID (items ! j)) \<noteq> None
            \<and> s' = s\<lparr>ContainerPools := dropCollected (take (Suc j) items) (ContainerPools s),
                     AvailableMemMB := AvailableMemMB s + sum_list (map item_memory (take j items)),
                     DestroyCalls := DestroyCalls s @ map item_contID (take (Suc j) items)\<rparr>))
    \<and> (distinct (rangeOrder e (ContainerPools s)) \<longrightarrow>
          (\<forall>k. map item_elem (filter (\<lambda>item. item_pool item = k) items) = [0..<collected k items]
             \<and> collected k items \<le> length (ready (poolOf s k))))
    \<and> (res \<longrightarrow>
          (\<forall>j<length items.
              container_Destroy e (DestroyCalls s @ map item_contID (take j items)) (item_contID (items ! j)) = None))
    \<and> map (\<lambda>item. (item_pool item, item_elem item)) items
          = take (length items) (warmPositions (ContainerPools s) (rangeOrder e (ContainerPools s)))
    \<and> (warmPositions (ContainerPools s) (rangeOrder e (ContainerPools s)) \<noteq> [] \<longrightarrow> items \<noteq> [])
    \<and> (\<forall>m. 0 < m \<and> m < length items \<longrightarrow> \<not> n \<le>s sum_list (map item_memory (take m items)))
    \<and> (\<not> n \<le>s cleanedMB \<longrightarrow>
          length items = length (warmPositions (ContainerPools s) (rangeOrder e (ContainerPools s))))
    \<and> (\<forall>item\<in>set items.
          item_memory item
            = fst (container_GetMemoryMB e (wcontID (hd (ready (poolOf s (item_pool item)))))))
    \<and> (\<forall>item\<in>set items.
          item_contID item = wcontID (hd (ready (poolOf s (item_pool item)))))
    \<and> (\<forall>item\<in>set items. item_elem item = 0 \<longrightarrow>
          item_contID item = wcontID (ready (poolOf s (item_pool item)) ! item_elem item))
    \<and> (res \<and> (\<forall>item\<in>set items. item_elem item = 0) \<longrightarrow>
          DestroyCalls s' = DestroyCalls s
            @ map (\<lambda>item. wcontID (ready (poolOf s (item_pool item)) ! item_elem item)) items)"
proof -
  from research_spec [OF assms(1)] have sum: "cleanedMB = sum_list (map item_memory items)"
    and front: "distinct (rangeOrder e (ContainerPools s)) \<longrightarrow>
          (\<forall>k. map item_elem (filter (\<lambda>item. item_pool item = k) items) = [0..<collected k items]
             \<and> collected k items \<le> length (ready (poolOf s k)))"
    by (auto simp: poolOf_def)
  from research_walk [OF assms(1)] have
    places: "map (\<lambda>item. (item_pool item, item_elem item)) items
          = take (length items) (warmPositions (ContainerPools s) (rangeOrder e (ContainerPools s)))"
    and some: "warmPositions (ContainerPools s) (rangeOrder e (ContainerPools s)) \<noteq> [] \<longrightarrow> items \<noteq> []"
    and held: "\<forall>item\<in>set items. \<exists>p. ContainerPools s (item_pool item) = Some p \<and> ready p \<noteq> []
            \<and> item_contID item = wcontID (hd (ready p))
            \<and> item_memory item = fst (container_GetMemoryMB e (wcontID (hd (ready p))))"
    and early: "\<forall>m. 0 < m \<and> m < length items \<longrightarrow> \<not> n \<le>s sum_list (map item_memory (take m items))"
    and whole: "\<not> n \<le>s cleanedMB \<longrightarrow>
          length items = length (warmPositions (ContainerPools s) (rangeOrder e (ContainerPools s)))"
    by simp_all
  have memory: "\<forall>item\<in>set items.
          item_memory item
            = fst (container_GetMemoryMB e (wcontID (hd (ready (poolOf s (item_pool item))))))"
    using held by (auto simp: poolOf_def)
  have ids: "\<forall>item\<in>set items.
          item_contID item = wcontID (hd (ready (poolOf s (item_pool item))))"
    using held by (auto simp: poolOf_def)
  have own: "\<forall>item\<in>set items. item_elem item = 0 \<longrightarrow>
          item_contID item = wcontID (ready (poolOf s (item_pool item)) ! item_elem item)"
    using held by (auto simp: poolOf_def hd_conv_nth)
  have run: "(res, s') = (if n \<le>s cleanedMB then cleanup e items s else (False, s))"
    using assms by (simp add: dismissContainer_def)
  have short: "\<not> n \<le>s cleanedMB \<longrightarrow> \<not> res \<and> s' = s"
    using run by (auto split: if_splits)
  have committed: "res \<longrightarrow> n \<le>s cleanedMB
        \<and> s' = s\<lparr>ContainerPools := dropCollected items (ContainerPools s),
                 AvailableMemMB := AvailableMemMB s + cleanedMB,
                 DestroyCalls := DestroyCalls s @ map item_contID items\<rparr>"
  proof
    assume res
    with run have le: "n \<le>s cleanedMB" and "cleanup e items s = (True, s')"
      by (auto split: if_splits)
    from cleanup_True [OF this(2)] le sum
    show "n \<le>s cleanedMB
        \<and> s' = s\<lparr>ContainerPools := dropCollected items (ContainerPools s),
                 AvailableMemMB := AvailableMemMB s + cleanedMB,
                 DestroyCalls := DestroyCalls s @ map item_contID items\<rparr>"
      by simp
  qed
  have aborted: "n \<le>s cleanedMB \<and> \<not> res \<longrightarrow>
          (\<exists>j<length items.
              container_Destroy e (DestroyCalls s @ map item_contID (take j items)) (item_contID (items ! j)) \<noteq> None
            \<and> s' = s\<lparr>ContainerPools := dropCollected (take (Suc j) items) (ContainerPools s),
                     AvailableMemMB := AvailableMemMB s + sum_list (map item_memory (take j items)),
                     DestroyCalls := DestroyCalls s @ map item_contID (take (Suc j) items)\<rparr>)"
  proof
    assume "n \<le>s cleanedMB \<and> \<not> res"
    with run have "cleanup e items s = (False, s')" by simp
    from cleanup_False [OF this]
    show "\<exists>j<length items.
              container_Destroy e (DestroyCalls s @ map item_contID (take j items)) (item_contID (items ! j)) \<noteq> None
            \<and> s' = s\<lparr>ContainerPools := dropCollected (take (Suc j) items) (ContainerPools s),
                     AvailableMemMB := AvailableMemMB s + sum_list (map item_memory (take j items)),
                     DestroyCalls := DestroyCalls s @ map item_contID (take (Suc j) items)\<rparr>" .
  qed
  have succeeded: "res \<longrightarrow>
          (\<forall>j<length items.
              container_Destroy e (DestroyCalls s @ map item_contID (take j items)) (item_contID (items ! j)) = None)"
  proof
    assume res
    with run have "cleanup e items s = (True, s')"
      by (auto split: if_splits)
    then show "\<forall>j<length items.
              container_Destroy e (DestroyCalls s @ map item_contID (take j items)) (item_contID (items ! j)) = None"
      using cleanup_all_succeed by blast
  qed
  have fronts: "res \<and> (\<forall>item\<in>set items. item_elem item = 0) \<longrightarrow>
          DestroyCalls s' = DestroyCalls s
            @ map (\<lambda>item. wcontID (ready (poolOf s (item_pool item)) ! item_elem item)) items"
  proof
    assume a: "res \<and> (\<forall>item\<in>set items. item_elem item = 0)"
    with own have "map item_contID items
        = map (\<lambda>item. wcontID (ready (poolOf s (item_pool item)) ! item_elem item)) items"
      by (intro map_cong) auto
    moreover from a committed have "DestroyCalls s' = DestroyCalls s @ map item_contID items"
      by simp
    ultimately show "DestroyCalls s' = DestroyCalls s
            @ map (\<lambda>item. wcontID (ready (poolOf s (item_pool item)) ! item_elem item)) items"
      by simp
  qed
  show ?thesis
    by (intro conjI sum short committed aborted front succeeded places some early whole memory ids own fronts)
qed

text \<open>
  Claim C1 as stated fails when a destruction fails: \<open>dismissContainer\<close> returns false,
  and the warm entry has left its ready list.
\<close>

theorem dismissContainer_destroy_error_counterexample:
  "fst (dismissContainer exEnvDestroyFails 256 warmF) = False
   \<and> snd (dismissContainer exEnvDestroyFails 256 warmF) \<noteq> warmF
   \<and> ready (poolOf warmF ''f'') = [warm ''f'' ''c'' 100]
   \<and> ready (poolOf (snd (dismissContainer exEnvDestroyFails 256 warmF)) ''f'') = []
   \<and> DestroyCalls (snd (dismissContainer exEnvDestroyFails 256 warmF)) = [''c'']
   \<and> DestroyCalls warmF = []"
proof -
  have run: "dismissContainer exEnvDestroyFails 256 warmF
     = (False, warmF\<lparr>ContainerPools := [''f'' \<mapsto> \<lparr>busy = [], ready = []\<rparr>],
                     DestroyCalls := [''c'']\<rparr>)"
    by (simp add: dismissContainer_def example_defs pool_defs word_cmp Let_def)
  have "DestroyCalls (warmF\<lparr>ContainerPools := [''f'' \<mapsto> \<lparr>busy = [], ready = []\<rparr>],
                     DestroyCalls := [''c'']\<rparr>) \<noteq> DestroyCalls warmF"
    by (simp add: warmF_def)
  then have "warmF\<lparr>ContainerPools := [''f'' \<mapsto> \<lparr>busy = [], ready = []\<rparr>],
                     DestroyCalls := [''c'']\<rparr> \<noteq> warmF"
    by metis
  moreover have "ready (poolOf warmF ''f'') = [warm ''f'' ''c'' 100]" "DestroyCalls warmF = []"
    by (simp_all add: poolOf_def warmF_def)
  ultimately show ?thesis
    using run by (simp add: poolOf_def)
qed

text \<open>
  Witness: with two warm sandboxes of f and one of g, of 256 MB each, a need of 512 MB
  with a driver that succeeds, the same need with a driver whose destructions fail, and a
  need of 1024 MB, which the pools cannot meet; and, with one warm sandbox c of f, a need
  of 256 MB, where the sandbox destroyed is c.
\<close>

theorem dismissContainer_two_phase_witness:
  "research exEnv 512 (ContainerPools threeWarm) (rangeOrder exEnv (ContainerPools threeWarm)) (0, [])
     = (512, [\<lparr>item_contID = ''c1'', item_pool = ''f'', item_elem = 0, item_memory = 256\<rparr>,
              \<lparr>item_contID = ''c1'', item_pool = ''f'', item_elem = 1, item_memory = 256\<rparr>])
   \<and> distinct (rangeOrder exEnv (ContainerPools threeWarm))
   \<and> warmPositions (ContainerPools threeWarm) (rangeOrder exEnv (ContainerPools threeWarm))
       = [(''f'', 0), (''f'', 1), (''g'', 0)]
   \<and> fst (dismissContainer exEnv 512 threeWarm)
   \<and> (512 :: int64) \<le>s 512
   \<and> snd (dismissContainer exEnv 512 threeWarm)
       = threeWarm\<lparr>ContainerPools := dropCollected
                        [\<lparr>item_contID = ''c1'', item_pool = ''f'', item_elem = 0, item_memory = 256\<rparr>,
                         \<lparr>item_contID = ''c1'', item_pool = ''f'', item_elem = 1, item_memory = 256\<rparr>]
                        (ContainerPools threeWarm),
                    AvailableMemMB := AvailableMemMB threeWarm + 512,
                    DestroyCalls := DestroyCalls threeWarm @ [''c1'', ''c1'']\<rparr>
   \<and> collected ''f''
         [\<lparr>item_contID = ''c1'', item_pool = ''f'', item_elem = 0, item_memory = 256\<rparr>,
          \<lparr>item_contID = ''c1'', item_pool = ''f'', item_elem = 1, item_memory = 256\<rparr>]
       \<le> length (ready (poolOf threeWarm ''f''))
   \<and> \<not> fst (dismissContainer exEnvDestroyFails 512 threeWarm)
   \<and> (\<exists>j<2. snd (dismissContainer exEnvDestroyFails 512 threeWarm)
          = threeWarm\<lparr>ContainerPools := dropCollected
                (take (Suc j)
                  [\<lparr>item_contID = ''c1'', item_pool = ''f'', item_elem = 0, item_memory = 256\<rparr>,
                   \<lparr>item_contID = ''c1'', item_pool = ''f'', item_elem = 1, item_memory = 256\<rparr>])
                (ContainerPools threeWarm),
              AvailableMemMB := AvailableMemMB threeWarm + sum_list (map item_memory
                (take j
                  [\<lparr>item_contID = ''c1'', item_pool = ''f'', item_elem = 0, item_memory = 256\<rparr>,
                   \<lparr>item_contID = ''c1'', item_pool = ''f'', item_elem = 1, item_memory = 256\<rparr>])),
              DestroyCalls := DestroyCalls threeWarm @ map item_contID
                (take (Suc j)
                  [\<lparr>item_contID = ''c1'', item_pool = ''f'', item_elem = 0, item_memory = 256\<rparr>,
                   \<lparr>item_contID = ''c1'', item_pool = ''f'', item_elem = 1, item_memory = 256\<rparr>])\<rparr>)
   \<and> \<not> (1024 :: int64) \<le>s 768
   \<and> dismissContainer exEnv 1024 threeWarm = (False, threeWarm)
   \<and> research exEnv 256 (ContainerPools warmF) (rangeOrder exEnv (ContainerPools warmF)) (0, [])
     = (256, [\<lparr>item_contID = ''c'', item_pool = ''f'', item_elem = 0, item_memory = 256\<rparr>])
   \<and> fst (dismissContainer exEnv 256 warmF)
   \<and> ready (poolOf warmF ''f'') = [warm ''f'' ''c'' 100]
   \<and> DestroyCalls (snd (dismissContainer exEnv 256 warmF))
       = DestroyCalls warmF @ [wcontID (ready (poolOf warmF ''f'') ! 0)]"
proof -
  let ?i0 = "\<lparr>item_contID = ''c1'', item_pool = ''f'', item_elem = 0, item_memory = 256\<rparr>"
  let ?i1 = "\<lparr>item_contID = ''c1'', item_pool = ''f'', item_elem = 1, item_memory = 256\<rparr>"
  let ?ic = "\<lparr>item_contID = ''c'', item_pool = ''f'', item_elem = 0, item_memory = 256\<rparr>"
  have d: "distinct (rangeOrder exEnv (ContainerPools threeWarm))"
    by (simp add: example_defs)
  have w: "warmPositions (ContainerPools threeWarm) (rangeOrder exEnv (ContainerPools threeWarm))
       = [(''f'', 0), (''f'', 1), (''g'', 0)]"
    by (simp add: warmPositions_def example_defs upt_rec)
  have cmp: "(512 :: int64) \<le>s 512" "\<not> (1024 :: int64) \<le>s 768"
    by (simp_all add: word_cmp)
  have r1: "dismissContainer exEnv 512 threeWarm
              = (fst (dismissContainer exEnv 512 threeWarm), snd (dismissContainer exEnv 512 threeWarm))"
    and r2: "dismissContainer exEnvDestroyFails 512 threeWarm
              = (fst (dismissContainer exEnvDestroyFails 512 threeWarm),
                 snd (dismissContainer exEnvDestroyFails 512 threeWarm))"
    and r3: "dismissContainer exEnv 1024 threeWarm
              = (fst (dismissContainer exEnv 1024 threeWarm), snd (dismissContainer exEnv 1024 threeWarm))"
    and r4: "dismissContainer exEnv 256 warmF
              = (fst (dismissContainer exEnv 256 warmF), snd (dismissContainer exEnv 256 warmF))"
    by simp_all
  have ok: "fst (dismissContainer exEnv 512 threeWarm)"
    by (simp add: dismiss_threeWarm)
  have ko: "\<not> fst (dismissContainer exEnvDestroyFails 512 threeWarm)"
    by (simp add: dismiss_threeWarm_fails)
  have ok1: "fst (dismissContainer exEnv 256 warmF)"
    by (simp add: dismiss_warmF)
  have before: "ready (poolOf warmF ''f'') = [warm ''f'' ''c'' 100]"
    by (simp add: poolOf_def warmF_def)
  note t1 = dismissContainer_two_phase [OF research_threeWarm r1]
  note t1_committed = t1 [THEN conjunct2, THEN conjunct2, THEN conjunct1, rule_format, OF ok]
  note t1_front = t1 [THEN conjunct2, THEN conjunct2, THEN conjunct2, THEN conjunct2, THEN conjunct1,
      rule_format, OF d, of "''f''"]
  from t1_committed [THEN conjunct2]
  have a: "snd (dismissContainer exEnv 512 threeWarm)
       = threeWarm\<lparr>ContainerPools := dropCollected [?i0, ?i1] (ContainerPools threeWarm),
                    AvailableMemMB := AvailableMemMB threeWarm + 512,
                    DestroyCalls := DestroyCalls threeWarm @ [''c1'', ''c1'']\<rparr>"
    by simp
  from t1_front [THEN conjunct2]
  have a': "collected ''f'' [?i0, ?i1] \<le> length (ready (poolOf threeWarm ''f''))" .
  note t2 = dismissContainer_two_phase [OF research_threeWarm_fails r2]
  note t2_aborted = t2 [THEN conjunct2, THEN conjunct2, THEN conjunct2, THEN conjunct1, rule_format,
      OF conjI [OF cmp(1) ko]]
  from t2_aborted
  have "\<exists>j<length [?i0, ?i1]. snd (dismissContainer exEnvDestroyFails 512 threeWarm)
       = threeWarm\<lparr>ContainerPools := dropCollected (take (Suc j) [?i0, ?i1]) (ContainerPools threeWarm),
                    AvailableMemMB := AvailableMemMB threeWarm + sum_list (map item_memory (take j [?i0, ?i1])),
                    DestroyCalls := DestroyCalls threeWarm @ map item_contID (take (Suc j) [?i0, ?i1])\<rparr>"
    by blast
  then have b: "\<exists>j<2. snd (dismissContainer exEnvDestroyFails 512 threeWarm)
       = threeWarm\<lparr>ContainerPools := dropCollected (take (Suc j) [?i0, ?i1]) (ContainerPools threeWarm),
                    AvailableMemMB := AvailableMemMB threeWarm + sum_list (map item_memory (take j [?i0, ?i1])),
                    DestroyCalls := DestroyCalls threeWarm @ map item_contID (take (Suc j) [?i0, ?i1])\<rparr>"
    by (simp add: numeral_2_eq_2)
  note t3 = dismissContainer_two_phase [OF research_threeWarm_short r3]
  from t3 [THEN conjunct2, THEN conjunct1, rule_format, OF cmp(2)]
  have c: "dismissContainer exEnv 1024 threeWarm = (False, threeWarm)"
    by (metis prod.collapse)
  note t4 = dismissContainer_two_phase [OF research_warmF r4]
  have fronts: "\<forall>item\<in>set [?ic]. item_elem item = 0" by simp
  from t4 [THEN conjunct2, THEN conjunct2, THEN conjunct2, THEN conjunct2, THEN conjunct2,
      THEN conjunct2, THEN conjunct2, THEN conjunct2, THEN conjunct2, THEN conjunct2,
      THEN conjunct2, THEN conjunct2, THEN conjunct2, rule_format, OF conjI [OF ok1 fronts]]
  have e: "DestroyCalls (snd (dismissContainer exEnv 256 warmF))
       = DestroyCalls warmF @ [wcontID (ready (poolOf warmF ''f'') ! 0)]"
    by simp
  show ?thesis
    by (intro conjI research_threeWarm d w ok cmp a a' ko b c research_warmF ok1 before e)
qed

subsection \<open>\<open>AcquireWarmContainer\<close>\<close>

text \<open>
  Every entry of a pool names the function of the pool: the entries are made by
  \<open>putBusyContainer\<close> and \<open>putReadyContainer\<close> only, which \<open>NewContainerWithAcquiredResources\<close>,
  \<open>getWarmContainer\<close> and \<open>ReleaseContainer\<close> call with the name under which the pool is
  stored. \<open>poolsNamed\<close> states it; it holds where there is no pool, and every operation
  of the package keeps it (for \<open>AcquireWarmContainer\<close> below, for the others in the last
  subsection).
\<close>

lemma poolsNamed_cong: "ContainerPools s' = ContainerPools s \<Longrightarrow> poolsNamed s' = poolsNamed s"
  by (simp add: poolsNamed_def)

lemma poolsNamed_empty: "ContainerPools s = Map.empty \<Longrightarrow> poolsNamed s"
  by (simp add: poolsNamed_def)

lemma poolsNamed_setPool:
  "poolsNamed s \<Longrightarrow> \<forall>w\<in>set (ready fp). wFunction w = k \<Longrightarrow> \<forall>b\<in>set (busy fp). bFunction b = k \<Longrightarrow>
   poolsNamed (setPool k fp s)"
  by (simp add: poolsNamed_def setPool_def)

lemma poolsNamed_poolOf:
  "poolsNamed s \<Longrightarrow> (\<forall>w\<in>set (ready (poolOf s k)). wFunction w = k) \<and> (\<forall>b\<in>set (busy (poolOf s k)). bFunction b = k)"
  by (cases "ContainerPools s k") (auto simp: poolsNamed_def poolOf_def newFunctionPool_def)

text \<open>
  What \<open>AcquireWarmContainer\<close> computes in any state whatever. The second branch is the
  one that \<open>getWarmContainer\<close> answers with its marker for a front entry of another
  function.
\<close>

lemma AcquireWarmContainer_cases:
  "AcquireWarmContainer e f s =
     (case ready (poolOf s (Name f)) of
        [] \<Rightarrow> (Inl NoWarmFoundErr, setPool (Name f) (poolOf s (Name f)) s)
      | w # ws \<Rightarrow>
          if wFunction w \<noteq> Name f
          then (Inl (Errorf (noFunctionMsg (Name f))), setPool (Name f) (poolOf s (Name f)) s)
          else if AvailableCPUs s < CPUDemand f \<or> AvailableMemMB s <s 0
          then (Inl OutOfResourcesErr,
                setPool (Name f) (putBusyContainer (wcontID w) (Name f) ((poolOf s (Name f))\<lparr>ready := ws\<rparr>)) s)
          else (Inr (wcontID w),
                (setPool (Name f) (putBusyContainer (wcontID w) (Name f) ((poolOf s (Name f))\<lparr>ready := ws\<rparr>)) s)
                  \<lparr>AvailableCPUs := AvailableCPUs s - CPUDemand f\<rparr>))"
  by (auto simp: AcquireWarmContainer_def getFunctionPool_def poolOf_def getWarmContainer_def
      setPool_def acquireResources_def Let_def split: option.splits list.splits)

lemma poolsNamed_AcquireWarmContainer:
  assumes "poolsNamed s"
  shows "poolsNamed (snd (AcquireWarmContainer e f s))"
proof -
  note p = poolsNamed_poolOf [OF assms, of "Name f"]
  have same: "poolsNamed (setPool (Name f) (poolOf s (Name f)) s)"
    using assms p by (intro poolsNamed_setPool) auto
  have moved: "poolsNamed (setPool (Name f) (putBusyContainer (wcontID w) (Name f) ((poolOf s (Name f))\<lparr>ready := ws\<rparr>)) s)"
    if "ready (poolOf s (Name f)) = w # ws" for w ws
    using assms p that by (intro poolsNamed_setPool) (auto simp: putBusyContainer_def)
  have moved': "poolsNamed ((setPool (Name f) (putBusyContainer (wcontID w) (Name f) ((poolOf s (Name f))\<lparr>ready := ws\<rparr>)) s)
                  \<lparr>AvailableCPUs := c\<rparr>)"
    if "ready (poolOf s (Name f)) = w # ws" for w ws c
    using moved [OF that] by (simp add: poolsNamed_def)
  show ?thesis
    unfolding AcquireWarmContainer_cases
    using same moved moved' by (auto split: list.splits)
qed

lemma poolsNamed_warmF: "poolsNamed warmF"
  by (simp add: poolsNamed_def warmF_def warm_def)

lemma poolsNamed_initial: "poolsNamed initial"
  by (simp add: poolsNamed_def initial_def)

text \<open>
  Claim C3. In every state where the entries of each pool name the pool's function, and
  for every function \<open>f\<close>: the front warm entry of the pool of \<open>f\<close>, when there is one, is of
  \<open>f\<close>, so the case of a front entry of another function does not arise and
  \<open>AcquireWarmContainer\<close> never fails with the error it keeps for that case. With no warm
  entry it fails with \<open>NoWarmFoundErr\<close> (an empty pool is stored for \<open>f\<close> when it has none).
  With a front entry it moves the entry from the front of ready to the back of busy, and
  then either returns its id, having deducted the CPU demand, or fails with
  \<open>OutOfResourcesErr\<close>; it fails so exactly when there is a front entry and the reservation
  \<open>acquireResources(f.CPUDemand, 0, false)\<close> fails, which is when the available CPU is below
  the demand (or the available memory is negative). The available memory is never
  changed, and the pools of the state left name their functions again.
\<close>

theorem AcquireWarmContainer_contract:
  assumes "poolsNamed s"
  shows "(\<forall>w ws. ready (poolOf s (Name f)) = w # ws \<longrightarrow> wFunction w = Name f)
    \<and> AcquireWarmContainer e f s =
        (case ready (poolOf s (Name f)) of
           [] \<Rightarrow> (Inl NoWarmFoundErr, setPool (Name f) (poolOf s (Name f)) s)
         | w # ws \<Rightarrow>
             if AvailableCPUs s < CPUDemand f \<or> AvailableMemMB s <s 0
             then (Inl OutOfResourcesErr,
                   setPool (Name f) (putBusyContainer (wcontID w) (Name f) ((poolOf s (Name f))\<lparr>ready := ws\<rparr>)) s)
             else (Inr (wcontID w),
                   (setPool (Name f) (putBusyContainer (wcontID w) (Name f) ((poolOf s (Name f))\<lparr>ready := ws\<rparr>)) s)
                     \<lparr>AvailableCPUs := AvailableCPUs s - CPUDemand f\<rparr>))
    \<and> (fst (AcquireWarmContainer e f s) = Inl NoWarmFoundErr) = (ready (poolOf s (Name f)) = [])
    \<and> (fst (AcquireWarmContainer e f s) = Inl OutOfResourcesErr)
        = (ready (poolOf s (Name f)) \<noteq> [] \<and> \<not> fst (acquireResources e (CPUDemand f) 0 False s))
    \<and> (\<not> fst (acquireResources e (CPUDemand f) 0 False s))
        = (AvailableCPUs s < CPUDemand f \<or> AvailableMemMB s <s 0)
    \<and> (\<forall>msg. fst (AcquireWarmContainer e f s) \<noteq> Inl (Errorf msg))
    \<and> AvailableMemMB (snd (AcquireWarmContainer e f s)) = AvailableMemMB s
    \<and> poolsNamed (snd (AcquireWarmContainer e f s))"
proof -
  note p = poolsNamed_poolOf [OF assms, of "Name f"]
  have named: "\<forall>w ws. ready (poolOf s (Name f)) = w # ws \<longrightarrow> wFunction w = Name f"
    using p by auto
  have eq: "AcquireWarmContainer e f s =
        (case ready (poolOf s (Name f)) of
           [] \<Rightarrow> (Inl NoWarmFoundErr, setPool (Name f) (poolOf s (Name f)) s)
         | w # ws \<Rightarrow>
             if AvailableCPUs s < CPUDemand f \<or> AvailableMemMB s <s 0
             then (Inl OutOfResourcesErr,
                   setPool (Name f) (putBusyContainer (wcontID w) (Name f) ((poolOf s (Name f))\<lparr>ready := ws\<rparr>)) s)
             else (Inr (wcontID w),
                   (setPool (Name f) (putBusyContainer (wcontID w) (Name f) ((poolOf s (Name f))\<lparr>ready := ws\<rparr>)) s)
                     \<lparr>AvailableCPUs := AvailableCPUs s - CPUDemand f\<rparr>))"
    unfolding AcquireWarmContainer_cases using named by (auto split: list.splits)
  have acq: "(\<not> fst (acquireResources e (CPUDemand f) 0 False s))
        = (AvailableCPUs s < CPUDemand f \<or> AvailableMemMB s <s 0)"
    by (simp add: acquireResources_def)
  have nowarm: "(fst (AcquireWarmContainer e f s) = Inl NoWarmFoundErr) = (ready (poolOf s (Name f)) = [])"
    unfolding eq by (simp split: list.splits)
  have oor: "(fst (AcquireWarmContainer e f s) = Inl OutOfResourcesErr)
        = (ready (poolOf s (Name f)) \<noteq> [] \<and> \<not> fst (acquireResources e (CPUDemand f) 0 False s))"
    unfolding eq acq by (simp split: list.splits)
  have noerrf: "\<forall>msg. fst (AcquireWarmContainer e f s) \<noteq> Inl (Errorf msg)"
    unfolding eq by (simp split: list.splits)
  have mem: "AvailableMemMB (snd (AcquireWarmContainer e f s)) = AvailableMemMB s"
    unfolding eq by (simp add: setPool_def split: list.splits)
  show ?thesis
    by (intro conjI named eq nowarm oor acq noerrf mem poolsNamed_AcquireWarmContainer [OF assms])
qed

text \<open>
  Witness: a warm sandbox of f with the CPU it needs, the same with no CPU left, and no
  pool at all.
\<close>

theorem AcquireWarmContainer_contract_witness:
  "poolsNamed warmF \<and> poolsNamed (warmF\<lparr>AvailableCPUs := 0\<rparr>) \<and> poolsNamed initial
   \<and> AcquireWarmContainer exEnv fnF warmF
       = (Inr ''c'', warmF\<lparr>AvailableCPUs := 0,
               ContainerPools := [''f'' \<mapsto> \<lparr>busy = [\<lparr>bFunction = ''f'', bcontID = ''c''\<rparr>], ready = []\<rparr>]\<rparr>)
   \<and> fst (AcquireWarmContainer exEnv fnF (warmF\<lparr>AvailableCPUs := 0\<rparr>)) = Inl OutOfResourcesErr
   \<and> fst (AcquireWarmContainer exEnv fnF initial) = Inl NoWarmFoundErr
   \<and> AvailableMemMB (snd (AcquireWarmContainer exEnv fnF warmF)) = AvailableMemMB warmF"
proof -
  have n0: "poolsNamed (warmF\<lparr>AvailableCPUs := 0\<rparr>)"
    using poolsNamed_warmF by (simp add: poolsNamed_def)
  note t1 = AcquireWarmContainer_contract [OF poolsNamed_warmF, of fnF exEnv]
  note t2 = AcquireWarmContainer_contract [OF n0, of fnF exEnv]
  note t3 = AcquireWarmContainer_contract [OF poolsNamed_initial, of fnF exEnv]
  from t1 [THEN conjunct2, THEN conjunct1]
  have 1: "AcquireWarmContainer exEnv fnF warmF
       = (Inr ''c'', warmF\<lparr>AvailableCPUs := 0,
               ContainerPools := [''f'' \<mapsto> \<lparr>busy = [\<lparr>bFunction = ''f'', bcontID = ''c''\<rparr>], ready = []\<rparr>]\<rparr>)"
    by (simp add: example_defs pool_defs word_cmp)
  have r2: "ready (poolOf (warmF\<lparr>AvailableCPUs := 0\<rparr>) (Name fnF)) \<noteq> []"
    "\<not> fst (acquireResources exEnv (CPUDemand fnF) 0 False (warmF\<lparr>AvailableCPUs := 0\<rparr>))"
    by (simp_all add: example_defs pool_defs acquireResources_def)
  from t2 [THEN conjunct2, THEN conjunct2, THEN conjunct2, THEN conjunct1] r2
  have 2: "fst (AcquireWarmContainer exEnv fnF (warmF\<lparr>AvailableCPUs := 0\<rparr>)) = Inl OutOfResourcesErr"
    by simp
  have r3: "ready (poolOf initial (Name fnF)) = []"
    by (simp add: example_defs pool_defs)
  from t3 [THEN conjunct2, THEN conjunct2, THEN conjunct1] r3
  have 3: "fst (AcquireWarmContainer exEnv fnF initial) = Inl NoWarmFoundErr"
    by simp
  note 4 = t1 [THEN conjunct2, THEN conjunct2, THEN conjunct2, THEN conjunct2, THEN conjunct2,
      THEN conjunct2, THEN conjunct1]
  show ?thesis
    by (intro conjI poolsNamed_warmF n0 poolsNamed_initial 1 2 3 4)
qed

text \<open>
  The hypothesis is needed. In \<open>strayF\<close>, a state written by hand that no operation
  produces, the pool of f holds an entry that names g, and \<open>AcquireWarmContainer\<close> leaves
  it in place and fails with the error of its own.
\<close>

lemma AcquireWarmContainer_stray_entry:
  "\<not> poolsNamed strayF
   \<and> ready (poolOf strayF (Name fnF)) = [warm ''g'' ''c'' 100]
   \<and> fst (AcquireWarmContainer exEnv fnF strayF) = Inl (Errorf (noFunctionMsg ''f''))
   \<and> ContainerPools (snd (AcquireWarmContainer exEnv fnF strayF)) = ContainerPools strayF"
proof -
  have 1: "\<not> poolsNamed strayF"
  proof
    assume "poolsNamed strayF"
    from poolsNamed_poolOf [OF this, of "''f''"] show False
      by (simp add: poolOf_def strayF_def warm_def)
  qed
  have 2: "ready (poolOf strayF (Name fnF)) = [warm ''g'' ''c'' 100]"
    by (simp add: poolOf_def strayF_def fnF_def)
  have 3: "fst (AcquireWarmContainer exEnv fnF strayF) = Inl (Errorf (noFunctionMsg ''f''))"
    by (simp add: AcquireWarmContainer_def getFunctionPool_def poolOf_def getWarmContainer_def
        setPool_def strayF_def fnF_def warm_def)
  have 4: "ContainerPools (snd (AcquireWarmContainer exEnv fnF strayF)) = ContainerPools strayF"
    by (simp add: AcquireWarmContainer_def getFunctionPool_def poolOf_def getWarmContainer_def
        setPool_def strayF_def fnF_def warm_def fun_eq_iff)
  show ?thesis by (intro conjI 1 2 3 4)
qed

text \<open>
  Claim C9. When \<open>AcquireWarmContainer\<close> fails with \<open>OutOfResourcesErr\<close>, the front warm
  entry was of the function asked for and the reservation failed; the entry has left the
  ready list and stands at the back of the busy list, so the pools have changed; the
  caller gets no id, and the ledger and the driver are as before.
\<close>

theorem AcquireWarmContainer_OutOfResources_keeps_busy:
  assumes "AcquireWarmContainer e f s = (Inl OutOfResourcesErr, s')"
  shows "\<exists>w ws. ready (poolOf s (Name f)) = w # ws \<and> wFunction w = Name f
           \<and> (AvailableCPUs s < CPUDemand f \<or> AvailableMemMB s <s 0)
           \<and> ContainerPools s' = (ContainerPools s)
                (Name f \<mapsto> \<lparr>busy = busy (poolOf s (Name f)) @ [\<lparr>bFunction = Name f, bcontID = wcontID w\<rparr>],
                             ready = ws\<rparr>)
           \<and> ContainerPools s' \<noteq> ContainerPools s
           \<and> AvailableCPUs s' = AvailableCPUs s \<and> AvailableMemMB s' = AvailableMemMB s
           \<and> DestroyCalls s' = DestroyCalls s \<and> Created s' = Created s"
proof (cases "ready (poolOf s (Name f))")
  case Nil
  with assms show ?thesis
    by (auto simp: AcquireWarmContainer_def getFunctionPool_def poolOf_def getWarmContainer_def
        setPool_def Let_def split: option.splits)
next
  case (Cons w ws)
  have neq: "(ContainerPools s)(Name f \<mapsto> p) \<noteq> ContainerPools s" if "ready p = ws" for p
  proof
    assume "(ContainerPools s)(Name f \<mapsto> p) = ContainerPools s"
    then have "ContainerPools s (Name f) = Some p" by (metis fun_upd_same)
    then have "poolOf s (Name f) = p" by (simp add: poolOf_def)
    with Cons that show False by simp
  qed
  from assms Cons show ?thesis
    apply (intro exI[of _ w] exI[of _ ws])
    apply (auto simp: AcquireWarmContainer_def getFunctionPool_def poolOf_def getWarmContainer_def
        putBusyContainer_def setPool_def acquireResources_def Let_def neq
        split: option.splits list.splits if_splits)
    done
qed

text \<open>Witness: a warm sandbox of f and no CPU left.\<close>

theorem AcquireWarmContainer_OutOfResources_keeps_busy_witness:
  "AcquireWarmContainer exEnv fnF (warmF\<lparr>AvailableCPUs := 0\<rparr>)
     = (Inl OutOfResourcesErr,
        warmF\<lparr>AvailableCPUs := 0,
               ContainerPools := [''f'' \<mapsto> \<lparr>busy = [\<lparr>bFunction = ''f'', bcontID = ''c''\<rparr>], ready = []\<rparr>]\<rparr>)
   \<and> ready (poolOf (warmF\<lparr>AvailableCPUs := 0\<rparr>) ''f'') = [warm ''f'' ''c'' 100]
   \<and> ContainerPools (warmF\<lparr>AvailableCPUs := 0,
               ContainerPools := [''f'' \<mapsto> \<lparr>busy = [\<lparr>bFunction = ''f'', bcontID = ''c''\<rparr>], ready = []\<rparr>]\<rparr>)
       \<noteq> ContainerPools (warmF\<lparr>AvailableCPUs := 0\<rparr>)"
proof -
  have run: "AcquireWarmContainer exEnv fnF (warmF\<lparr>AvailableCPUs := 0\<rparr>)
     = (Inl OutOfResourcesErr,
        warmF\<lparr>AvailableCPUs := 0,
               ContainerPools := [''f'' \<mapsto> \<lparr>busy = [\<lparr>bFunction = ''f'', bcontID = ''c''\<rparr>], ready = []\<rparr>]\<rparr>)"
    by (simp add: AcquireWarmContainer_def getFunctionPool_def getWarmContainer_def
        putBusyContainer_def setPool_def acquireResources_def warmF_def fnF_def warm_def)
  have before: "ready (poolOf (warmF\<lparr>AvailableCPUs := 0\<rparr>) ''f'') = [warm ''f'' ''c'' 100]"
    by (simp add: poolOf_def warmF_def)
  from AcquireWarmContainer_OutOfResources_keeps_busy [OF run] run before show ?thesis
    by blast
qed

subsection \<open>\<open>DeleteExpiredContainer\<close>\<close>

lemma expireReady_spec:
  "expireReady e now ws s =
     (filter (\<lambda>w. \<not> Expiration w <s now) ws,
      s\<lparr>AvailableMemMB := AvailableMemMB s
            + sum_list (map (\<lambda>w. fst (container_GetMemoryMB e (wcontID w))) (filter (\<lambda>w. Expiration w <s now) ws)),
        DestroyCalls := DestroyCalls s @ map wcontID (filter (\<lambda>w. Expiration w <s now) ws)\<rparr>)"
proof (induction ws arbitrary: s)
  case Nil
  then show ?case by simp
next
  case (Cons w ws)
  show ?case
    by (simp add: Cons.IH Let_def releaseResources_def Destroy_def add.assoc)
qed

lemma expiredOf_cong:
  "(\<And>k. k \<in> set ks \<Longrightarrow> m k = m' k) \<Longrightarrow> expiredOf now m ks = expiredOf now m' ks"
  by (induction ks) (simp_all add: expiredOf_def)

lemma expiredOf_Cons:
  "expiredOf now m (k # ks) =
     (case m k of None \<Rightarrow> [] | Some p \<Rightarrow> filter (\<lambda>w. Expiration w <s now) (ready p)) @ expiredOf now m ks"
  by (simp add: expiredOf_def)

lemma expirePools_spec:
  "distinct ks \<Longrightarrow>
   expirePools e now ks s =
     s\<lparr>ContainerPools :=
          (\<lambda>k. if k \<in> set ks
                then map_option (\<lambda>p. p\<lparr>ready := filter (\<lambda>w. \<not> Expiration w <s now) (ready p)\<rparr>) (ContainerPools s k)
                else ContainerPools s k),
       AvailableMemMB := AvailableMemMB s
            + sum_list (map (\<lambda>w. fst (container_GetMemoryMB e (wcontID w))) (expiredOf now (ContainerPools s) ks)),
       DestroyCalls := DestroyCalls s @ map wcontID (expiredOf now (ContainerPools s) ks)\<rparr>"
proof (induction ks arbitrary: s)
  case Nil
  then show ?case by (simp add: expiredOf_def)
next
  case (Cons k ks)
  then have d: "distinct ks" and nk: "k \<notin> set ks" by simp_all
  show ?case
  proof (cases "ContainerPools s k")
    case None
    have "(\<lambda>k'. if k' \<in> set (k # ks)
                then map_option (\<lambda>p. p\<lparr>ready := filter (\<lambda>w. \<not> Expiration w <s now) (ready p)\<rparr>) (ContainerPools s k')
                else ContainerPools s k')
        = (\<lambda>k'. if k' \<in> set ks
                then map_option (\<lambda>p. p\<lparr>ready := filter (\<lambda>w. \<not> Expiration w <s now) (ready p)\<rparr>) (ContainerPools s k')
                else ContainerPools s k')"
      using None by auto
    with None Cons.IH [OF d, of s] show ?thesis
      by (simp add: expiredOf_Cons)
  next
    case (Some pool)
    let ?exp = "filter (\<lambda>w. Expiration w <s now) (ready pool)"
    let ?s1 = "s\<lparr>AvailableMemMB := AvailableMemMB s
                    + sum_list (map (\<lambda>w. fst (container_GetMemoryMB e (wcontID w))) ?exp),
                DestroyCalls := DestroyCalls s @ map wcontID ?exp\<rparr>"
    let ?s2 = "setPool k (pool\<lparr>ready := filter (\<lambda>w. \<not> Expiration w <s now) (ready pool)\<rparr>) ?s1"
    have step: "expirePools e now (k # ks) s = expirePools e now ks ?s2"
      using Some by (simp add: expireReady_spec)
    have same: "expiredOf now (ContainerPools ?s2) ks = expiredOf now (ContainerPools s) ks"
      using nk by (intro expiredOf_cong) (auto simp: setPool_def)
    have pools: "(\<lambda>k'. if k' \<in> set ks
                then map_option (\<lambda>p. p\<lparr>ready := filter (\<lambda>w. \<not> Expiration w <s now) (ready p)\<rparr>) (ContainerPools ?s2 k')
                else ContainerPools ?s2 k')
        = (\<lambda>k'. if k' \<in> set (k # ks)
                then map_option (\<lambda>p. p\<lparr>ready := filter (\<lambda>w. \<not> Expiration w <s now) (ready p)\<rparr>) (ContainerPools s k')
                else ContainerPools s k')"
      using nk Some by (auto simp: setPool_def)
    show ?thesis
      unfolding step Cons.IH [OF d, of ?s2] same pools
      using Some by (simp add: setPool_def expiredOf_Cons add.assoc)
  qed
qed

lemma set_expiredOf:
  "set (expiredOf now m ks) = {w. \<exists>k\<in>set ks. \<exists>p. m k = Some p \<and> w \<in> set (ready p) \<and> Expiration w <s now}"
  by (induction ks) (auto simp: expiredOf_Cons expiredOf_def split: option.splits)

lemma sweep_threeWarm: "DeleteExpiredContainer exEnv 250 threeWarm = sweptAt250"
  by (simp add: DeleteExpiredContainer_def example_defs sweptAt250_def pool_defs word_cmp Let_def)

text \<open>
  Claim C7. Let the range over the pools yield every key once. Then the sweep at \<open>now\<close>
  leaves in every ready list exactly the entries that have not expired, in their order;
  it credits the memory of every expired entry and calls \<open>Destroy\<close> on its sandbox, and
  changes nothing else. So every warm entry with an expiration earlier than \<open>now\<close> has
  left its ready list, and its sandbox was handed to \<open>Destroy\<close>; every warm entry that
  remains has an expiration of at least \<open>now\<close>; the busy lists are as before.
\<close>

theorem DeleteExpiredContainer_sweep:
  assumes "distinct (rangeOrder e (ContainerPools s))"
      and "set (rangeOrder e (ContainerPools s)) = dom (ContainerPools s)"
  shows "DeleteExpiredContainer e now s =
           s\<lparr>ContainerPools :=
                (\<lambda>k. map_option (\<lambda>p. p\<lparr>ready := filter (\<lambda>w. \<not> Expiration w <s now) (ready p)\<rparr>)
                        (ContainerPools s k)),
             AvailableMemMB := AvailableMemMB s
                + sum_list (map (\<lambda>w. fst (container_GetMemoryMB e (wcontID w)))
                     (expiredOf now (ContainerPools s) (rangeOrder e (ContainerPools s)))),
             DestroyCalls := DestroyCalls s
                @ map wcontID (expiredOf now (ContainerPools s) (rangeOrder e (ContainerPools s)))\<rparr>
    \<and> (\<forall>k p w. ContainerPools s k = Some p \<and> w \<in> set (ready p) \<and> Expiration w <s now \<longrightarrow>
          w \<in> set (expiredOf now (ContainerPools s) (rangeOrder e (ContainerPools s)))
        \<and> w \<notin> set (ready (poolOf (DeleteExpiredContainer e now s) k))
        \<and> wcontID w \<in> set (DestroyCalls (DeleteExpiredContainer e now s)))
    \<and> (\<forall>k p w. ContainerPools (DeleteExpiredContainer e now s) k = Some p \<and> w \<in> set (ready p) \<longrightarrow>
          now \<le>s Expiration w)
    \<and> (\<forall>k. busy (poolOf (DeleteExpiredContainer e now s) k) = busy (poolOf s k))"
proof -
  let ?ks = "rangeOrder e (ContainerPools s)"
  let ?keep = "\<lambda>p. p\<lparr>ready := filter (\<lambda>w. \<not> Expiration w <s now) (ready p)\<rparr>"
  have pools: "(\<lambda>k. if k \<in> set ?ks then map_option ?keep (ContainerPools s k) else ContainerPools s k)
             = (\<lambda>k. map_option ?keep (ContainerPools s k))"
  proof
    fix k
    show "(if k \<in> set ?ks then map_option ?keep (ContainerPools s k) else ContainerPools s k)
            = map_option ?keep (ContainerPools s k)"
      using assms(2) by (cases "ContainerPools s k") auto
  qed
  have eq: "DeleteExpiredContainer e now s =
           s\<lparr>ContainerPools := (\<lambda>k. map_option ?keep (ContainerPools s k)),
             AvailableMemMB := AvailableMemMB s
                + sum_list (map (\<lambda>w. fst (container_GetMemoryMB e (wcontID w))) (expiredOf now (ContainerPools s) ?ks)),
             DestroyCalls := DestroyCalls s @ map wcontID (expiredOf now (ContainerPools s) ?ks)\<rparr>"
    unfolding DeleteExpiredContainer_def expirePools_spec [OF assms(1)] pools ..
  have gone: "w \<in> set (expiredOf now (ContainerPools s) ?ks)
        \<and> w \<notin> set (ready (poolOf (DeleteExpiredContainer e now s) k))
        \<and> wcontID w \<in> set (DestroyCalls (DeleteExpiredContainer e now s))"
    if "ContainerPools s k = Some p \<and> w \<in> set (ready p) \<and> Expiration w <s now" for k p w
  proof -
    from that assms(2) have "k \<in> set ?ks" by auto
    with that have "w \<in> set (expiredOf now (ContainerPools s) ?ks)"
      by (auto simp: set_expiredOf)
    with that show ?thesis
      by (simp add: eq poolOf_def)
  qed
  have left: "now \<le>s Expiration w"
    if "ContainerPools (DeleteExpiredContainer e now s) k = Some p \<and> w \<in> set (ready p)" for k p w
    using that by (auto simp: eq word_sless_alt word_sle_eq)
  have busy: "busy (poolOf (DeleteExpiredContainer e now s) k) = busy (poolOf s k)" for k
    by (cases "ContainerPools s k") (simp_all add: eq poolOf_def)
  from eq gone left busy show ?thesis by blast
qed

text \<open>
  Witness: the sweep at the instant 250 of the state \<open>threeWarm\<close>, whose warm sandboxes
  expire at 100, 200 and 300.
\<close>

theorem DeleteExpiredContainer_sweep_witness:
  "distinct (rangeOrder exEnv (ContainerPools threeWarm))
   \<and> set (rangeOrder exEnv (ContainerPools threeWarm)) = dom (ContainerPools threeWarm)
   \<and> ContainerPools threeWarm ''f'' = Some \<lparr>busy = [], ready = [warm ''f'' ''c1'' 100, warm ''f'' ''c2'' 200]\<rparr>
   \<and> Expiration (warm ''f'' ''c2'' 200) <s 250
   \<and> DeleteExpiredContainer exEnv 250 threeWarm = sweptAt250
   \<and> warm ''f'' ''c2'' 200 \<notin> set (ready (poolOf sweptAt250 ''f''))
   \<and> wcontID (warm ''f'' ''c2'' 200) \<in> set (DestroyCalls sweptAt250)
   \<and> ContainerPools sweptAt250 ''g'' = Some \<lparr>busy = [], ready = [warm ''g'' ''c3'' 300]\<rparr>
   \<and> 250 \<le>s Expiration (warm ''g'' ''c3'' 300)
   \<and> AvailableMemMB sweptAt250 = AvailableMemMB threeWarm + 512"
proof -
  have d: "distinct (rangeOrder exEnv (ContainerPools threeWarm))"
    and c: "set (rangeOrder exEnv (ContainerPools threeWarm)) = dom (ContainerPools threeWarm)"
    by (simp_all add: example_defs insert_commute)
  have f: "ContainerPools threeWarm ''f'' = Some \<lparr>busy = [], ready = [warm ''f'' ''c1'' 100, warm ''f'' ''c2'' 200]\<rparr>"
    and w: "warm ''f'' ''c2'' 200 \<in> set (ready \<lparr>busy = [], ready = [warm ''f'' ''c1'' 100, warm ''f'' ''c2'' 200]\<rparr>)"
    and x: "Expiration (warm ''f'' ''c2'' 200) <s 250"
    and g: "ContainerPools sweptAt250 ''g'' = Some \<lparr>busy = [], ready = [warm ''g'' ''c3'' 300]\<rparr>"
    and w': "warm ''g'' ''c3'' 300 \<in> set (ready \<lparr>busy = [], ready = [warm ''g'' ''c3'' 300]\<rparr>)"
    and m: "AvailableMemMB sweptAt250 = AvailableMemMB threeWarm + 512"
    by (simp_all add: example_defs sweptAt250_def word_cmp)
  note th = DeleteExpiredContainer_sweep [OF d c, of 250, unfolded sweep_threeWarm]
  note gone = th [THEN conjunct2, THEN conjunct1, rule_format, OF conjI [OF f conjI [OF w x]]]
  note left = th [THEN conjunct2, THEN conjunct2, THEN conjunct1, rule_format, OF conjI [OF g w']]
  from d c f x sweep_threeWarm gone left g m show ?thesis by simp
qed

subsection \<open>\<open>InvokeFunction\<close>: the request id\<close>

lemma digit_val_char: "d < 10 \<Longrightarrow> digit_val (digit_char d) = d"
  by (simp add: digit_val_def digit_char_def)

lemma undecimal: "foldl (\<lambda>a c. 10 * a + digit_val c) 0 (decimal n) = n"
proof (induction n rule: decimal.induct)
  case (1 n)
  show ?case
  proof (cases "n < 10")
    case True
    then show ?thesis by (subst decimal.simps) (simp add: digit_val_char)
  next
    case False
    with 1 have "foldl (\<lambda>a c. 10 * a + digit_val c) 0 (decimal (n div 10)) = n div 10" by simp
    with False show ?thesis
      by (subst decimal.simps) (simp add: digit_val_char)
  qed
qed

lemma decimal_inj: "decimal a = decimal b \<Longrightarrow> a = b"
  by (metis undecimal)

lemma format_d_inj_nonneg: "0 \<le> a \<Longrightarrow> 0 \<le> b \<Longrightarrow> format_d a = format_d b \<Longrightarrow> a = b"
  by (auto simp: format_d_def dest!: decimal_inj)

lemma Nanosecond_range: "0 \<le> Nanosecond t \<and> Nanosecond t \<le> 999999999"
  by (simp add: Nanosecond_def)

lemma invoke_async:
  "InvokeFunction exEnv ''node-abcde'' ''f'' (Some \<lparr>inv_CanDoOffloading = True, inv_Async = True\<rparr>) 1000000042
     = AsyncAccepted ''f-abcde42''"
  by code_simp

text \<open>
  Claim C8, as the code has it. The request id is the function's name, a hyphen, the last
  five bytes of the node identifier and the decimal numeral of \<open>Arrival.Nanosecond()\<close>,
  the nanosecond offset of the arrival within its second (the handler panics when the
  identifier has fewer than five bytes). Two requests for the same function at the same
  node get the same id exactly when their arrivals have the same offset within the second.
  The id of a request that \<open>InvokeFunction\<close> accepts is the one built from the function
  found and the instant of arrival.
\<close>

theorem makeReqId_composition:
  "(length nid < 5 \<longrightarrow> makeReqId f nid t = None)
   \<and> (5 \<le> length nid \<longrightarrow>
        makeReqId f nid t = Some (Name f @ ''-'' @ drop (length nid - 5) nid @ decimal (nat (t mod 1000000000)))
      \<and> length (drop (length nid - 5) nid) = 5
      \<and> (makeReqId f nid t = makeReqId f nid t') = (t mod 1000000000 = t' mod 1000000000))
   \<and> (InvokeFunction e nid name body t = AsyncAccepted rid \<longrightarrow>
        (\<exists>g. function_GetFunction e name = Some g \<and> makeReqId g nid t = Some rid))
   \<and> (InvokeFunction e nid name body t = Submitted r \<longrightarrow>
        function_GetFunction e name = Some (Fun r) \<and> Arrival r = t
      \<and> makeReqId (Fun r) nid t = Some (ReqId r))"
proof -
  have inj: "(format_d (Nanosecond t) = format_d (Nanosecond t')) = (t mod 1000000000 = t' mod 1000000000)"
    using format_d_inj_nonneg [of "Nanosecond t" "Nanosecond t'"] Nanosecond_range [of t] Nanosecond_range [of t']
    by (auto simp: Nanosecond_def)
  have fmt: "format_d (Nanosecond t) = decimal (nat (t mod 1000000000))"
    by (simp add: format_d_def Nanosecond_def)
  have id: "(length nid < 5 \<longrightarrow> makeReqId f nid t = None)
   \<and> (5 \<le> length nid \<longrightarrow>
        makeReqId f nid t = Some (Name f @ ''-'' @ drop (length nid - 5) nid @ decimal (nat (t mod 1000000000)))
      \<and> length (drop (length nid - 5) nid) = 5
      \<and> (makeReqId f nid t = makeReqId f nid t') = (t mod 1000000000 = t' mod 1000000000))"
    using inj by (auto simp: makeReqId_def Function_String_def fmt)
  have async: "InvokeFunction e nid name body t = AsyncAccepted rid \<longrightarrow>
        (\<exists>g. function_GetFunction e name = Some g \<and> makeReqId g nid t = Some rid)"
    by (auto simp: InvokeFunction_def Let_def split: option.splits if_splits)
  have sync: "InvokeFunction e nid name body t = Submitted r \<longrightarrow>
        function_GetFunction e name = Some (Fun r) \<and> Arrival r = t
      \<and> makeReqId (Fun r) nid t = Some (ReqId r)"
    by (auto simp: InvokeFunction_def Let_def split: option.splits if_splits)
  from id async sync show ?thesis by blast
qed

text \<open>
  Claim C8 as stated fails: two requests for one function that arrive one second apart
  at one node get the same id.
\<close>

theorem makeReqId_collision_counterexample:
  "makeReqId fnF ''node-abcde'' 5 = makeReqId fnF ''node-abcde'' 1000000005
   \<and> makeReqId fnF ''node-abcde'' 5 = Some ''f-abcde5''
   \<and> (5 :: int) \<noteq> 1000000005"
  by code_simp

text \<open>Witness: arrivals at 42 ns, 43 ns and 1 s 42 ns, and a node identifier of four bytes.\<close>

theorem makeReqId_composition_witness:
  "5 \<le> length ''node-abcde''
   \<and> makeReqId fnF ''node-abcde'' 1000000042 = Some ''f-abcde42''
   \<and> makeReqId fnF ''node-abcde'' 1000000042 = makeReqId fnF ''node-abcde'' 42
   \<and> makeReqId fnF ''node-abcde'' 1000000042 \<noteq> makeReqId fnF ''node-abcde'' 43
   \<and> length ''node'' < 5 \<and> makeReqId fnF ''node'' 42 = None
   \<and> InvokeFunction exEnv ''node-abcde'' ''f'' (Some \<lparr>inv_CanDoOffloading = True, inv_Async = True\<rparr>) 1000000042
       = AsyncAccepted ''f-abcde42''
   \<and> (\<exists>g. function_GetFunction exEnv ''f'' = Some g \<and> makeReqId g ''node-abcde'' 1000000042 = Some ''f-abcde42'')"
proof -
  have l: "5 \<le> length ''node-abcde''" "length ''node'' < 5" by simp_all
  have d: "decimal 42 = ''42''"
    by code_simp
  from makeReqId_composition [of "''node-abcde''" fnF 1000000042, THEN conjunct2, THEN conjunct1, rule_format, OF l(1)]
  have th: "makeReqId fnF ''node-abcde'' 1000000042
        = Some (Name fnF @ ''-'' @ drop (length ''node-abcde'' - 5) ''node-abcde'' @ decimal (nat (1000000042 mod 1000000000)))
      \<and> length (drop (length ''node-abcde'' - 5) ''node-abcde'') = 5
      \<and> (makeReqId fnF ''node-abcde'' 1000000042 = makeReqId fnF ''node-abcde'' t')
          = (1000000042 mod 1000000000 = t' mod 1000000000)" for t'
    by blast
  from th [THEN conjunct1] have 1: "makeReqId fnF ''node-abcde'' 1000000042 = Some ''f-abcde42''"
    by (simp add: d fnF_def)
  from th [THEN conjunct2, THEN conjunct2, of 42]
  have 2: "makeReqId fnF ''node-abcde'' 1000000042 = makeReqId fnF ''node-abcde'' 42"
    by simp
  from th [THEN conjunct2, THEN conjunct2, of 43]
  have 3: "makeReqId fnF ''node-abcde'' 1000000042 \<noteq> makeReqId fnF ''node-abcde'' 43"
    by simp
  from makeReqId_composition [of "''node''" fnF 42, THEN conjunct1] l have 4: "makeReqId fnF ''node'' 42 = None"
    by simp
  from makeReqId_composition [THEN conjunct2, THEN conjunct2, THEN conjunct1, rule_format, OF invoke_async]
  have 5: "\<exists>g. function_GetFunction exEnv ''f'' = Some g \<and> makeReqId g ''node-abcde'' 1000000042 = Some ''f-abcde42''" .
  from l 1 2 3 4 5 invoke_async show ?thesis by blast
qed

subsection \<open>The ledger after a run of operations\<close>

lemmas run_defs = run1_def run2_def run3_def run4_def run5_def

lemma step1: "NewContainer exEnv fnF initial = (Inr ''c'', run1)"
  by (simp add: NewContainer_def NewContainerWithAcquiredResources_def acquireResources_def
      example_defs run_defs pool_defs word_cmp Let_def)

lemma step2: "ReleaseContainer ''c'' fnF 600 run1 = run2"
  by (simp add: ReleaseContainer_def example_defs run_defs pool_defs Let_def)

lemma step3: "NewContainer exEnv fnG run2 = (Inr ''cc'', run3)"
  by (simp add: NewContainer_def NewContainerWithAcquiredResources_def acquireResources_def
      example_defs run_defs pool_defs word_cmp Let_def)

lemma step4: "AcquireWarmContainer exEnv fnF run3 = (Inl OutOfResourcesErr, run4)"
  by (simp add: AcquireWarmContainer_def acquireResources_def
      example_defs run_defs pool_defs word_cmp Let_def fun_eq_iff)

lemma step5: "ShutdownAllContainers exEnv run4 = Some run5"
  by (simp add: ShutdownAllContainers_def example_defs run_defs pool_defs word_cmp Let_def)

text \<open>
  Claim C2 fails on the code. From the initial ledger of one CPU, with a driver that
  never fails: a sandbox is created for f and released, a sandbox is created for g,
  \<open>AcquireWarmContainer\<close> for f then fails for lack of CPU but leaves the warm sandbox in
  the busy list, and \<open>ShutdownAllContainers\<close> credits the CPU of every busy sandbox. In
  the end every sandbox created has been destroyed, and two CPUs are available.
\<close>

theorem conservation_broken_by_run:
  "NewContainer exEnv fnF initial = (Inr ''c'', run1)
   \<and> ReleaseContainer ''c'' fnF 600 run1 = run2
   \<and> NewContainer exEnv fnG run2 = (Inr ''cc'', run3)
   \<and> AcquireWarmContainer exEnv fnF run3 = (Inl OutOfResourcesErr, run4)
   \<and> ShutdownAllContainers exEnv run4 = Some run5
   \<and> Created run5 = [''c'', ''cc''] \<and> DestroyCalls run5 = [''c'', ''cc'']
   \<and> AvailableCPUs initial = 1 \<and> AvailableCPUs run5 = 2
   \<and> AvailableMemMB initial = 512 \<and> AvailableMemMB run5 = 512"
  using step1 step2 step3 step4 step5 by (simp add: run5_def initial_def)

subsection \<open>\<open>ShutdownAllContainers\<close>\<close>

lemma shutdownReady_pools: "ContainerPools (shutdownReady e ws s) = ContainerPools s"
  by (induction ws arbitrary: s) (simp_all add: Let_def Destroy_def)

lemma shutdownBusy_pools: "shutdownBusy e fd bs s = Some s' \<Longrightarrow> ContainerPools s' = ContainerPools s"
proof (induction bs arbitrary: s)
  case Nil
  then show ?case by simp
next
  case (Cons b bs)
  then show ?case
    by (auto simp: Destroy_def split: prod.splits if_splits option.splits)
qed

lemma shutdownPools_pools:
  "shutdownPools e ks s = Some s' \<Longrightarrow>
   ContainerPools s' =
     (\<lambda>k. if k \<in> set ks then map_option (\<lambda>p. p\<lparr>ready := []\<rparr>) (ContainerPools s k) else ContainerPools s k)"
proof (induction ks arbitrary: s)
  case Nil
  then show ?case by simp
next
  case (Cons k ks)
  show ?case
  proof (cases "ContainerPools s k")
    case None
    with Cons.prems have "shutdownPools e ks s = Some s'" by simp
    from Cons.IH [OF this] None show ?thesis by auto
  next
    case (Some pool)
    let ?s2 = "setPool k (pool\<lparr>ready := []\<rparr>) (shutdownReady e (ready pool) s)"
    from Cons.prems Some obtain s3 where
      b: "shutdownBusy e (function_GetFunction e k) (busy pool) ?s2 = Some s3"
      and r: "shutdownPools e ks s3 = Some s'"
      by (auto simp: Let_def split: option.splits)
    have p3: "ContainerPools s3 = (ContainerPools s)(k \<mapsto> pool\<lparr>ready := []\<rparr>)"
      using shutdownBusy_pools [OF b] by (simp add: setPool_def shutdownReady_pools)
    from Cons.IH [OF r] p3 Some show ?thesis by auto
  qed
qed

text \<open>
  What \<open>ShutdownAllContainers\<close> does to the pools, in every state where the range yields
  every key and the call returns: every ready list is emptied, and every busy list is
  left as it was.
\<close>

theorem ShutdownAllContainers_pools:
  assumes "set (rangeOrder e (ContainerPools s)) = dom (ContainerPools s)"
      and "ShutdownAllContainers e s = Some s'"
  shows "ContainerPools s' = (\<lambda>k. map_option (\<lambda>p. p\<lparr>ready := []\<rparr>) (ContainerPools s k))
       \<and> (\<forall>k. ready (poolOf s' k) = [] \<and> busy (poolOf s' k) = busy (poolOf s k))"
proof -
  from assms(2) have "shutdownPools e (rangeOrder e (ContainerPools s)) s = Some s'"
    by (simp add: ShutdownAllContainers_def)
  from shutdownPools_pools [OF this]
  have eq: "ContainerPools s' = (\<lambda>k. map_option (\<lambda>p. p\<lparr>ready := []\<rparr>) (ContainerPools s k))"
    using assms(1) by (auto simp: fun_eq_iff domIff)
  have "ready (poolOf s' k) = [] \<and> busy (poolOf s' k) = busy (poolOf s k)" for k
    by (cases "ContainerPools s k") (simp_all add: eq poolOf_def newFunctionPool_def)
  with eq show ?thesis by blast
qed

text \<open>Witness: the shutdown of the state \<open>run4\<close>, with one busy sandbox in each of two pools.\<close>

theorem ShutdownAllContainers_pools_witness:
  "set (rangeOrder exEnv (ContainerPools run4)) = dom (ContainerPools run4)
   \<and> ShutdownAllContainers exEnv run4 = Some run5
   \<and> busy (poolOf run5 ''f'') = busy (poolOf run4 ''f'')
   \<and> busy (poolOf run4 ''f'') = [\<lparr>bFunction = ''f'', bcontID = ''c''\<rparr>]"
proof -
  have c: "set (rangeOrder exEnv (ContainerPools run4)) = dom (ContainerPools run4)"
    by (simp add: example_defs run4_def insert_commute)
  have b: "busy (poolOf run4 ''f'') = [\<lparr>bFunction = ''f'', bcontID = ''c''\<rparr>]"
    by (simp add: run4_def poolOf_def)
  from ShutdownAllContainers_pools [OF c step5] c step5 b show ?thesis by blast
qed

text \<open>
  Claim C4 fails on the code. With one busy sandbox in the pool of f,
  \<open>ShutdownAllContainers\<close> destroys it and credits its memory and CPU, and the busy list
  still holds its entry afterwards. With a driver whose destructions fail, no credit is
  applied for the busy sandbox.
\<close>

theorem ShutdownAllContainers_keeps_busy:
  "ShutdownAllContainers exEnv busyF
     = Some (busyF\<lparr>AvailableCPUs := 1, AvailableMemMB := 512, DestroyCalls := [''c'']\<rparr>)
   \<and> busy (poolOf (busyF\<lparr>AvailableCPUs := 1, AvailableMemMB := 512, DestroyCalls := [''c'']\<rparr>) ''f'')
       = [\<lparr>bFunction = ''f'', bcontID = ''c''\<rparr>]
   \<and> ShutdownAllContainers exEnvDestroyFails busyF = Some (busyF\<lparr>DestroyCalls := [''c'']\<rparr>)"
  by (simp add: ShutdownAllContainers_def example_defs pool_defs word_cmp Let_def)

subsection \<open>\<open>NewContainer\<close>\<close>

lemma dismissContainer_True_ledger:
  assumes "dismissContainer e n s = (True, s0)"
  shows "AvailableCPUs s0 = AvailableCPUs s \<and> Created s0 = Created s"
proof -
  obtain cl items where r: "research e n (ContainerPools s) (rangeOrder e (ContainerPools s)) (0, []) = (cl, items)"
    by (metis surj_pair)
  with assms have "cleanup e items s = (True, s0)"
    by (simp add: dismissContainer_def split: if_splits)
  from cleanup_True [OF this] show ?thesis by simp
qed

lemma acquireResources_True:
  assumes "acquireResources e c m d s = (True, s1)"
  shows "s1 = (if AvailableMemMB s <s m then snd (dismissContainer e m s) else s)
              \<lparr>AvailableCPUs := AvailableCPUs s - c,
                AvailableMemMB := AvailableMemMB (if AvailableMemMB s <s m then snd (dismissContainer e m s) else s) - m\<rparr>
         \<and> Created s1 = Created s"
proof (cases "AvailableMemMB s <s m")
  case False
  with assms show ?thesis
    by (auto simp: acquireResources_def split: if_splits)
next
  case True
  with assms obtain s0 where d: "dismissContainer e m s = (True, s0)"
    and s1: "s1 = s0\<lparr>AvailableCPUs := AvailableCPUs s0 - c, AvailableMemMB := AvailableMemMB s0 - m\<rparr>"
    by (auto simp: acquireResources_def split: if_splits prod.splits)
  from dismissContainer_True_ledger [OF d] d s1 True show ?thesis by simp
qed

text \<open>
  \<open>NewContainer\<close> once the reservation is acquired and the image is known. If the driver's
  creation fails, the error is returned and what was deducted is added back: the state is
  the one before the call or, where eviction made room, the one eviction left (CPU shares
  are exact here; in float64 the sum of a difference and its subtrahend may be rounded).
  If the creation succeeds, the new sandbox stands at the back of the function's busy list.
\<close>

theorem NewContainer_driver_outcome:
  assumes "acquireResources e (CPUDemand fun) (MemoryMB fun) True s = (True, s1)"
      and "(if Runtime fun = container_CUSTOM_RUNTIME e then Some (CustomImage fun)
            else map_option Image (container_RuntimeToInfo e (Runtime fun))) = Some img"
  shows "(\<forall>err. container_NewContainer e (Created s1) img (TarFunctionCode fun)
                  \<lparr>opt_MemoryMB = MemoryMB fun, opt_CPUQuota = CPUDemand fun\<rparr> = Inl err \<longrightarrow>
            NewContainer e fun s
              = (Inl err, if AvailableMemMB s <s MemoryMB fun then snd (dismissContainer e (MemoryMB fun) s) else s))
       \<and> (\<forall>c. container_NewContainer e (Created s1) img (TarFunctionCode fun)
                  \<lparr>opt_MemoryMB = MemoryMB fun, opt_CPUQuota = CPUDemand fun\<rparr> = Inr c \<longrightarrow>
            NewContainer e fun s
              = (Inr c, s1\<lparr>Created := Created s1 @ [c],
                           ContainerPools := (ContainerPools s1)
                             (Name fun \<mapsto> (poolOf s1 (Name fun))
                                \<lparr>busy := busy (poolOf s1 (Name fun)) @ [\<lparr>bFunction = Name fun, bcontID = c\<rparr>]\<rparr>)\<rparr>))"
proof -
  let ?s0 = "if AvailableMemMB s <s MemoryMB fun then snd (dismissContainer e (MemoryMB fun) s) else s"
  from acquireResources_True [OF assms(1)]
  have s1: "s1 = ?s0\<lparr>AvailableCPUs := AvailableCPUs s - CPUDemand fun,
                      AvailableMemMB := AvailableMemMB ?s0 - MemoryMB fun\<rparr>"
    by simp
  have cpu0: "AvailableCPUs ?s0 = AvailableCPUs s"
  proof (cases "AvailableMemMB s <s MemoryMB fun")
    case False then show ?thesis by simp
  next
    case True
    with assms(1) obtain s0 where d: "dismissContainer e (MemoryMB fun) s = (True, s0)"
      by (auto simp: acquireResources_def split: if_splits prod.splits)
    from dismissContainer_True_ledger [OF d] d True show ?thesis by simp
  qed
  have released: "releaseResources (CPUDemand fun) (MemoryMB fun) s1 = ?s0"
    by (subst s1) (simp add: releaseResources_def cpu0 [symmetric])
  have failing: "NewContainer e fun s = (Inl err, ?s0)"
    if "container_NewContainer e (Created s1) img (TarFunctionCode fun)
                  \<lparr>opt_MemoryMB = MemoryMB fun, opt_CPUQuota = CPUDemand fun\<rparr> = Inl err" for err
    using assms that released
    by (simp add: NewContainer_def NewContainerWithAcquiredResources_def)
  have success: "NewContainer e fun s
              = (Inr c, s1\<lparr>Created := Created s1 @ [c],
                           ContainerPools := (ContainerPools s1)
                             (Name fun \<mapsto> (poolOf s1 (Name fun))
                                \<lparr>busy := busy (poolOf s1 (Name fun)) @ [\<lparr>bFunction = Name fun, bcontID = c\<rparr>]\<rparr>)\<rparr>)"
    if "container_NewContainer e (Created s1) img (TarFunctionCode fun)
                  \<lparr>opt_MemoryMB = MemoryMB fun, opt_CPUQuota = CPUDemand fun\<rparr> = Inr c" for c
    using assms that
    by (cases "ContainerPools s1 (Name fun)")
       (simp_all add: NewContainer_def NewContainerWithAcquiredResources_def pool_defs Let_def)
  from failing success show ?thesis by blast
qed

lemma acquire_initial: "acquireResources exEnv 1 256 True initial = (True, initial\<lparr>AvailableCPUs := 0, AvailableMemMB := 256\<rparr>)"
  by (simp add: acquireResources_def example_defs word_cmp)

lemma acquire_initial_fails: "acquireResources exEnvCreateFails 1 256 True initial = (True, initial\<lparr>AvailableCPUs := 0, AvailableMemMB := 256\<rparr>)"
  by (simp add: acquireResources_def example_defs word_cmp)

text \<open>Witness: a creation that fails and a creation that succeeds, on the initial ledger.\<close>

theorem NewContainer_driver_outcome_witness:
  "acquireResources exEnvCreateFails (CPUDemand fnF) (MemoryMB fnF) True initial
     = (True, initial\<lparr>AvailableCPUs := 0, AvailableMemMB := 256\<rparr>)
   \<and> NewContainer exEnvCreateFails fnF initial = (Inl (DriverErr ''create failed''), initial)
   \<and> acquireResources exEnv (CPUDemand fnF) (MemoryMB fnF) True initial
     = (True, initial\<lparr>AvailableCPUs := 0, AvailableMemMB := 256\<rparr>)
   \<and> NewContainer exEnv fnF initial = (Inr ''c'', run1)"
proof -
  have a1: "acquireResources exEnvCreateFails (CPUDemand fnF) (MemoryMB fnF) True initial
     = (True, initial\<lparr>AvailableCPUs := 0, AvailableMemMB := 256\<rparr>)"
    and a2: "acquireResources exEnv (CPUDemand fnF) (MemoryMB fnF) True initial
     = (True, initial\<lparr>AvailableCPUs := 0, AvailableMemMB := 256\<rparr>)"
    by (simp_all add: fnF_def acquire_initial acquire_initial_fails)
  have i1: "(if Runtime fnF = container_CUSTOM_RUNTIME exEnvCreateFails then Some (CustomImage fnF)
            else map_option Image (container_RuntimeToInfo exEnvCreateFails (Runtime fnF))) = Some ''python-image''"
    and i2: "(if Runtime fnF = container_CUSTOM_RUNTIME exEnv then Some (CustomImage fnF)
            else map_option Image (container_RuntimeToInfo exEnv (Runtime fnF))) = Some ''python-image''"
    by (simp_all add: example_defs)
  have d1: "container_NewContainer exEnvCreateFails (Created (initial\<lparr>AvailableCPUs := 0, AvailableMemMB := 256\<rparr>))
              ''python-image'' (TarFunctionCode fnF) \<lparr>opt_MemoryMB = MemoryMB fnF, opt_CPUQuota = CPUDemand fnF\<rparr>
            = Inl (DriverErr ''create failed'')"
    and d2: "container_NewContainer exEnv (Created (initial\<lparr>AvailableCPUs := 0, AvailableMemMB := 256\<rparr>))
              ''python-image'' (TarFunctionCode fnF) \<lparr>opt_MemoryMB = MemoryMB fnF, opt_CPUQuota = CPUDemand fnF\<rparr>
            = Inr ''c''"
    by (simp_all add: example_defs)
  have m: "\<not> AvailableMemMB initial <s MemoryMB fnF"
    by (simp add: example_defs word_cmp)
  from NewContainer_driver_outcome [OF a1 i1, THEN conjunct1, rule_format, OF d1] m
  have 1: "NewContainer exEnvCreateFails fnF initial = (Inl (DriverErr ''create failed''), initial)"
    by simp
  from NewContainer_driver_outcome [OF a2 i2, THEN conjunct2, rule_format, OF d2]
  have 2: "NewContainer exEnv fnF initial = (Inr ''c'', run1)"
    by (simp add: example_defs run1_def pool_defs)
  from a1 1 a2 2 show ?thesis by blast
qed

text \<open>
  Claim C5 fails on the code. For a function whose runtime is unknown, \<open>NewContainer\<close>
  reserves the CPU and the memory, fails with the error "Invalid runtime", and returns
  with the reservation still deducted. (When the driver's creation fails, the reservation
  is released.)
\<close>

theorem NewContainer_invalid_runtime_keeps_reservation:
  "NewContainer exEnv fnBad initial
     = (Inl (Errorf ''Invalid runtime: cobol''), initial\<lparr>AvailableCPUs := 0, AvailableMemMB := 256\<rparr>)
   \<and> AvailableCPUs initial = 1 \<and> AvailableMemMB initial = 512
   \<and> NewContainer exEnvCreateFails fnF initial = (Inl (DriverErr ''create failed''), initial)"
  by (simp add: NewContainer_def NewContainerWithAcquiredResources_def acquireResources_def
      example_defs pool_defs word_cmp Let_def)

subsection \<open>\<open>PollAsyncResult\<close>\<close>

text \<open>
  Claim C10. For every request id the guard \<open>len(reqId) < 0\<close> is false, so every poll, also
  one with the empty id, is answered from the lookup: 500 when the client or the lookup
  fails, 200 with the stored value when exactly one value is found, and else 404 with the
  body of the lookup's branch, never the 404 with the empty body of the guard.
\<close>

theorem PollAsyncResult_guard_unreachable:
  "\<not> int (length reqId) < 0
   \<and> PollAsyncResult etcd reqId =
       (case etcd of
          None \<Rightarrow> JSON 500 []
        | Some etcdClient \<Rightarrow>
            (case etcdClient (''async/'' @ reqId) of
               None \<Rightarrow> JSON 500 []
             | Some kvs \<Rightarrow>
                 if length kvs = 1 then JSONBlob 200 (hd kvs)
                 else JSON 404 ''function not found''))
   \<and> PollAsyncResult etcd reqId \<noteq> JSON 404 []
   \<and> PollAsyncResult (Some (\<lambda>key. if key = ''async/'' then Some [''payload''] else None)) []
       = JSONBlob 200 ''payload''"
  by (simp add: PollAsyncResult_def split: option.splits)

subsection \<open>\<open>OnArrival\<close>\<close>

lemma AcquireWarmContainer_hit:
  "ready (poolOf s (Name f)) = w # ws \<Longrightarrow> wFunction w = Name f \<Longrightarrow>
   CPUDemand f \<le> AvailableCPUs s \<Longrightarrow> 0 \<le>s AvailableMemMB s \<Longrightarrow>
   fst (AcquireWarmContainer e f s) = Inr (wcontID w)"
  by (auto simp: AcquireWarmContainer_def getFunctionPool_def poolOf_def getWarmContainer_def
      setPool_def acquireResources_def Let_def word_cmp split: option.splits list.splits)

lemma AcquireWarmContainer_empty:
  "ready (poolOf s (Name f)) = [] \<Longrightarrow> fst (AcquireWarmContainer e f s) = Inl NoWarmFoundErr"
  by (auto simp: AcquireWarmContainer_def getFunctionPool_def poolOf_def getWarmContainer_def
      setPool_def newFunctionPool_def Let_def split: option.splits list.splits)

text \<open>
  Claim C6. When the engine decides \<open>EXECUTE_REQUEST\<close>, \<open>OnArrival\<close> first asks for a warm
  container and, when it gets one, executes locally on it and does nothing else; when it
  gets none, it attempts a cold start, and when that fails it offloads the request if
  \<open>CanDoOffloading\<close> is set and drops it otherwise. In particular, with a warm entry of
  the function at the front of its pool and enough CPU, the request runs on that entry's
  sandbox, and with no warm entry the first call is the cold start. A request decided
  \<open>OFFLOAD_REQUEST\<close> is offloaded, one decided \<open>DROP_REQUEST\<close> is dropped.
\<close>

theorem OnArrival_fallback_chain:
  "(de_Decide p r = EXECUTE_REQUEST \<longrightarrow>
      (\<forall>c s1. AcquireWarmContainer e (Fun r) s = (Inr c, s1) \<longrightarrow>
          OnArrival e p r s = ([ExecLocally c True], s1))
    \<and> (\<forall>err s1 ok s2. AcquireWarmContainer e (Fun r) s = (Inl err, s1) \<and> handleColdStart p r s1 = (ok, s2) \<longrightarrow>
          OnArrival e p r s =
            (HandleColdStart #
               (if ok then [] else if CanDoOffloading r then [HandleCloudOffload] else [DropRequest]), s2))
    \<and> (\<forall>w ws. ready (poolOf s (Name (Fun r))) = w # ws \<and> wFunction w = Name (Fun r)
          \<and> CPUDemand (Fun r) \<le> AvailableCPUs s \<and> 0 \<le>s AvailableMemMB s \<longrightarrow>
          fst (OnArrival e p r s) = [ExecLocally (wcontID w) True])
    \<and> (ready (poolOf s (Name (Fun r))) = [] \<longrightarrow>
          (\<exists>calls. fst (OnArrival e p r s) = HandleColdStart # calls)))
   \<and> (de_Decide p r = OFFLOAD_REQUEST \<longrightarrow> OnArrival e p r s = ([HandleCloudOffload], s))
   \<and> (de_Decide p r = DROP_REQUEST \<longrightarrow> OnArrival e p r s = ([DropRequest], s))"
proof -
  have hit: "fst (OnArrival e p r s) = [ExecLocally (wcontID w) True]"
    if "de_Decide p r = EXECUTE_REQUEST" "ready (poolOf s (Name (Fun r))) = w # ws" "wFunction w = Name (Fun r)"
       "CPUDemand (Fun r) \<le> AvailableCPUs s" "0 \<le>s AvailableMemMB s" for w ws
  proof -
    from AcquireWarmContainer_hit [OF that(2-5), of e]
    obtain s1 where "AcquireWarmContainer e (Fun r) s = (Inr (wcontID w), s1)"
      by (metis prod.collapse)
    with that(1) show ?thesis by (simp add: OnArrival_def)
  qed
  have miss: "\<exists>calls. fst (OnArrival e p r s) = HandleColdStart # calls"
    if "de_Decide p r = EXECUTE_REQUEST" "ready (poolOf s (Name (Fun r))) = []"
  proof -
    from AcquireWarmContainer_empty [OF that(2), of e]
    obtain s1 where "AcquireWarmContainer e (Fun r) s = (Inl NoWarmFoundErr, s1)"
      by (metis prod.collapse)
    with that(1) show ?thesis
      by (cases "handleColdStart p r s1") (simp add: OnArrival_def)
  qed
  have rest: "(de_Decide p r = EXECUTE_REQUEST \<longrightarrow>
      (\<forall>c s1. AcquireWarmContainer e (Fun r) s = (Inr c, s1) \<longrightarrow>
          OnArrival e p r s = ([ExecLocally c True], s1))
    \<and> (\<forall>err s1 ok s2. AcquireWarmContainer e (Fun r) s = (Inl err, s1) \<and> handleColdStart p r s1 = (ok, s2) \<longrightarrow>
          OnArrival e p r s =
            (HandleColdStart #
               (if ok then [] else if CanDoOffloading r then [HandleCloudOffload] else [DropRequest]), s2)))
   \<and> (de_Decide p r = OFFLOAD_REQUEST \<longrightarrow> OnArrival e p r s = ([HandleCloudOffload], s))
   \<and> (de_Decide p r = DROP_REQUEST \<longrightarrow> OnArrival e p r s = ([DropRequest], s))"
    by (simp add: OnArrival_def)
  from hit miss rest show ?thesis by blast
qed

text \<open>
  Witness: a warm hit; a miss with a cold start that succeeds; a miss with a failed cold
  start, with and without offloading; an offload decision; a drop decision.
\<close>

theorem OnArrival_fallback_chain_witness:
  "OnArrival exEnv (exPolicy EXECUTE_REQUEST False) (reqF True) warmF
     = ([ExecLocally ''c'' True],
        warmF\<lparr>AvailableCPUs := 0,
               ContainerPools := [''f'' \<mapsto> \<lparr>busy = [\<lparr>bFunction = ''f'', bcontID = ''c''\<rparr>], ready = []\<rparr>]\<rparr>)
   \<and> OnArrival exEnv (exPolicy EXECUTE_REQUEST True) (reqF True) initial
     = ([HandleColdStart], initial\<lparr>ContainerPools := [''f'' \<mapsto> newFunctionPool]\<rparr>)
   \<and> OnArrival exEnv (exPolicy EXECUTE_REQUEST False) (reqF True) initial
     = ([HandleColdStart, HandleCloudOffload], initial\<lparr>ContainerPools := [''f'' \<mapsto> newFunctionPool]\<rparr>)
   \<and> OnArrival exEnv (exPolicy EXECUTE_REQUEST False) (reqF False) initial
     = ([HandleColdStart, DropRequest], initial\<lparr>ContainerPools := [''f'' \<mapsto> newFunctionPool]\<rparr>)
   \<and> OnArrival exEnv (exPolicy OFFLOAD_REQUEST True) (reqF True) warmF = ([HandleCloudOffload], warmF)
   \<and> OnArrival exEnv (exPolicy DROP_REQUEST True) (reqF True) warmF = ([DropRequest], warmF)"
proof -
  have hit: "AcquireWarmContainer exEnv fnF warmF
     = (Inr ''c'', warmF\<lparr>AvailableCPUs := 0,
               ContainerPools := [''f'' \<mapsto> \<lparr>busy = [\<lparr>bFunction = ''f'', bcontID = ''c''\<rparr>], ready = []\<rparr>]\<rparr>)"
    by (simp add: AcquireWarmContainer_def getFunctionPool_def getWarmContainer_def
        putBusyContainer_def setPool_def acquireResources_def warmF_def fnF_def warm_def
        word_sless_alt)
  have miss: "AcquireWarmContainer exEnv fnF initial
     = (Inl NoWarmFoundErr, initial\<lparr>ContainerPools := [''f'' \<mapsto> newFunctionPool]\<rparr>)"
    by (simp add: AcquireWarmContainer_def getFunctionPool_def getWarmContainer_def
        newFunctionPool_def setPool_def initial_def fnF_def)
  have F: "Fun (reqF b) = fnF" "CanDoOffloading (reqF b) = b" for b
    by (simp_all add: reqF_def)
  have P: "de_Decide (exPolicy d ok) = (\<lambda>r. d)" "handleColdStart (exPolicy d ok) = (\<lambda>r s. (ok, s))" for d ok
    by (simp_all add: exPolicy_def)
  note th = OnArrival_fallback_chain
  from th [of "exPolicy EXECUTE_REQUEST False" "reqF True" exEnv warmF]
  have 1: "OnArrival exEnv (exPolicy EXECUTE_REQUEST False) (reqF True) warmF
     = ([ExecLocally ''c'' True],
        warmF\<lparr>AvailableCPUs := 0,
               ContainerPools := [''f'' \<mapsto> \<lparr>busy = [\<lparr>bFunction = ''f'', bcontID = ''c''\<rparr>], ready = []\<rparr>]\<rparr>)"
    by (simp add: P F hit)
  from th [of "exPolicy EXECUTE_REQUEST True" "reqF True" exEnv initial]
  have 2: "OnArrival exEnv (exPolicy EXECUTE_REQUEST True) (reqF True) initial
     = ([HandleColdStart], initial\<lparr>ContainerPools := [''f'' \<mapsto> newFunctionPool]\<rparr>)"
    by (auto simp: P F miss)
  from th [of "exPolicy EXECUTE_REQUEST False" "reqF True" exEnv initial]
  have 3: "OnArrival exEnv (exPolicy EXECUTE_REQUEST False) (reqF True) initial
     = ([HandleColdStart, HandleCloudOffload], initial\<lparr>ContainerPools := [''f'' \<mapsto> newFunctionPool]\<rparr>)"
    by (auto simp: P F miss)
  from th [of "exPolicy EXECUTE_REQUEST False" "reqF False" exEnv initial]
  have 4: "OnArrival exEnv (exPolicy EXECUTE_REQUEST False) (reqF False) initial
     = ([HandleColdStart, DropRequest], initial\<lparr>ContainerPools := [''f'' \<mapsto> newFunctionPool]\<rparr>)"
    by (auto simp: P F miss)
  from th [of "exPolicy OFFLOAD_REQUEST True" "reqF True" exEnv warmF]
  have 5: "OnArrival exEnv (exPolicy OFFLOAD_REQUEST True) (reqF True) warmF = ([HandleCloudOffload], warmF)"
    by (simp add: P)
  from th [of "exPolicy DROP_REQUEST True" "reqF True" exEnv warmF]
  have 6: "OnArrival exEnv (exPolicy DROP_REQUEST True) (reqF True) warmF = ([DropRequest], warmF)"
    by (simp add: P)
  from 1 2 3 4 5 6 show ?thesis by blast
qed

subsection \<open>Every operation keeps the pools named\<close>

text \<open>
  \<open>poolsNamed\<close> is kept by \<open>ReleaseContainer\<close>, \<open>dismissContainer\<close>, \<open>acquireResources\<close>,
  \<open>NewContainer\<close>, \<open>DeleteExpiredContainer\<close>, \<open>ShutdownWarmContainersFor\<close> and
  \<open>ShutdownAllContainers\<close>, as it is by \<open>AcquireWarmContainer\<close>.
\<close>

lemma removeBusy_spec:
  "removeBusy c bs = (bs', r) \<Longrightarrow>
   set bs' \<subseteq> set bs \<and> (\<forall>n. r = Some n \<longrightarrow> (\<exists>b\<in>set bs. bFunction b = n))"
proof (induction bs arbitrary: bs' r)
  case Nil
  then show ?case by simp
next
  case (Cons b bs)
  then show ?case
    by (auto split: if_splits prod.splits)
qed

lemma poolsNamed_ReleaseContainer:
  assumes "poolsNamed s"
  shows "poolsNamed (ReleaseContainer c f expTime s)"
proof -
  note p = poolsNamed_poolOf [OF assms, of "Name f"]
  obtain bs' r where rb: "removeBusy c (busy (poolOf s (Name f))) = (bs', r)"
    by (metis surj_pair)
  note rs = removeBusy_spec [OF rb]
  let ?fName = "case r of None \<Rightarrow> Name f | Some n \<Rightarrow> n"
  have fn: "?fName = Name f"
    using rs p by (cases r) auto
  let ?fp' = "putReadyContainer c ?fName expTime ((poolOf s (Name f))\<lparr>busy := bs'\<rparr>)"
  have eq: "ReleaseContainer c f expTime s = releaseResources (CPUDemand f) 0 (setPool (Name f) ?fp' s)"
    using rb by (cases "ContainerPools s (Name f)")
      (simp_all add: ReleaseContainer_def getFunctionPool_def poolOf_def setPool_def Let_def)
  have "poolsNamed (setPool (Name f) ?fp' s)"
    using assms p rs fn by (intro poolsNamed_setPool) (auto simp: putReadyContainer_def)
  then show ?thesis
    unfolding eq by (simp add: poolsNamed_def releaseResources_def)
qed

lemma poolsNamed_removeElem: "poolsNamed s \<Longrightarrow> poolsNamed (removeElem item s)"
proof (cases "ContainerPools s (item_pool item)")
  case None
  assume "poolsNamed s"
  with None show ?thesis by (simp add: removeElem_def)
next
  case (Some fp)
  assume a: "poolsNamed s"
  have "set (tl (ready fp)) \<subseteq> set (ready fp)"
    by (cases "ready fp") auto
  with a Some have "poolsNamed (setPool (item_pool item) (fp\<lparr>ready := tl (ready fp)\<rparr>) s)"
    by (intro poolsNamed_setPool) (auto simp: poolsNamed_def)
  with Some show ?thesis by (simp add: removeElem_def)
qed

lemma poolsNamed_cleanup: "poolsNamed s \<Longrightarrow> poolsNamed (snd (cleanup e items s))"
proof (induction items arbitrary: s)
  case Nil
  then show ?case by simp
next
  case (Cons item items)
  let ?s1 = "removeElem item s"
  have 1: "poolsNamed ?s1" using Cons.prems by (rule poolsNamed_removeElem)
  have 2: "poolsNamed (?s1\<lparr>DestroyCalls := DestroyCalls ?s1 @ [item_contID item]\<rparr>)"
    using 1 by (simp add: poolsNamed_def)
  have 3: "poolsNamed (?s1\<lparr>DestroyCalls := DestroyCalls ?s1 @ [item_contID item],
                            AvailableMemMB := AvailableMemMB ?s1 + item_memory item\<rparr>)"
    using 1 by (simp add: poolsNamed_def)
  from Cons.IH [OF 3] 2 show ?case
    by (simp add: Let_def Destroy_def)
qed

lemma poolsNamed_dismissContainer: "poolsNamed s \<Longrightarrow> poolsNamed (snd (dismissContainer e n s))"
  by (auto simp: dismissContainer_def Let_def poolsNamed_cleanup split: prod.splits)

lemma poolsNamed_acquireResources:
  "poolsNamed s \<Longrightarrow> poolsNamed (snd (acquireResources e c m d s))"
proof -
  assume a: "poolsNamed s"
  have l: "poolsNamed (t\<lparr>AvailableCPUs := x, AvailableMemMB := y\<rparr>) = poolsNamed t" for t x y
    by (simp add: poolsNamed_def)
  from poolsNamed_dismissContainer [OF a, of e m] a show ?thesis
    by (auto simp: acquireResources_def l split: prod.splits)
qed

lemma poolsNamed_NewContainerWithAcquiredResources:
  assumes "poolsNamed s"
  shows "poolsNamed (snd (NewContainerWithAcquiredResources e fun s))"
proof -
  have rel: "poolsNamed (releaseResources c m s)" for c m
    using assms by (simp add: poolsNamed_def releaseResources_def)
  have put: "poolsNamed (snd (let s1 = s\<lparr>Created := Created s @ [c]\<rparr>; (fp, s2) = getFunctionPool fun s1
                in (Inr c :: error + contID, setPool (Name fun) (putBusyContainer c (Name fun) fp) s2)))" for c
  proof -
    let ?s1 = "s\<lparr>Created := Created s @ [c]\<rparr>"
    have n1: "poolsNamed ?s1" using assms by (simp add: poolsNamed_def)
    note p = poolsNamed_poolOf [OF n1, of "Name fun"]
    have "poolsNamed (setPool (Name fun) (putBusyContainer c (Name fun) (poolOf ?s1 (Name fun))) ?s1)"
      using n1 p by (intro poolsNamed_setPool) (auto simp: putBusyContainer_def)
    then show ?thesis
      by (cases "ContainerPools s (Name fun)")
         (simp_all add: getFunctionPool_def poolOf_def setPool_def Let_def)
  qed
  show ?thesis
    using assms rel put
    by (auto simp: NewContainerWithAcquiredResources_def split: option.splits sum.splits if_splits)
qed

lemma poolsNamed_NewContainer:
  assumes "poolsNamed s"
  shows "poolsNamed (snd (NewContainer e fun s))"
  using poolsNamed_acquireResources [OF assms, of e "CPUDemand fun" "MemoryMB fun" True]
    poolsNamed_NewContainerWithAcquiredResources
  by (auto simp: NewContainer_def split: prod.splits)


lemma poolsNamed_expirePools: "poolsNamed s \<Longrightarrow> poolsNamed (expirePools e now ks s)"
proof (induction ks arbitrary: s)
  case Nil
  then show ?case by simp
next
  case (Cons k ks)
  show ?case
  proof (cases "ContainerPools s k")
    case None
    with Cons show ?thesis by simp
  next
    case (Some pool)
    let ?exp = "filter (\<lambda>w. Expiration w <s now) (ready pool)"
    let ?s1 = "s\<lparr>AvailableMemMB := AvailableMemMB s
                    + sum_list (map (\<lambda>w. fst (container_GetMemoryMB e (wcontID w))) ?exp),
                DestroyCalls := DestroyCalls s @ map wcontID ?exp\<rparr>"
    have n1: "poolsNamed ?s1" using Cons.prems by (simp add: poolsNamed_def)
    have "poolsNamed (setPool k (pool\<lparr>ready := filter (\<lambda>w. \<not> Expiration w <s now) (ready pool)\<rparr>) ?s1)"
      using n1 Some Cons.prems by (intro poolsNamed_setPool) (auto simp: poolsNamed_def)
    from Cons.IH [OF this] Some show ?thesis
      by (simp add: expireReady_spec)
  qed
qed

lemma poolsNamed_DeleteExpiredContainer: "poolsNamed s \<Longrightarrow> poolsNamed (DeleteExpiredContainer e now s)"
  by (simp add: DeleteExpiredContainer_def poolsNamed_expirePools)

lemma creditReady_pools: "ContainerPools (creditReady e ws s) = ContainerPools s"
  by (induction ws arbitrary: s) simp_all

lemma destroyAll_pools: "ContainerPools (destroyAll e cs s) = ContainerPools s"
  by (induction cs arbitrary: s) (simp_all add: Destroy_def)

lemma poolsNamed_ShutdownWarmContainersFor:
  assumes "poolsNamed s"
  shows "poolsNamed (ShutdownWarmContainersFor e f s)"
proof (cases "ContainerPools s (Name f)")
  case None
  with assms show ?thesis by (simp add: ShutdownWarmContainersFor_def)
next
  case (Some fp)
  have "poolsNamed (creditReady e (ready fp) s)"
    using assms by (simp add: poolsNamed_cong [OF creditReady_pools])
  then have "poolsNamed (setPool (Name f) (fp\<lparr>ready := []\<rparr>) (creditReady e (ready fp) s))"
    using Some assms by (intro poolsNamed_setPool) (auto simp: poolsNamed_def)
  then show ?thesis
    using Some by (simp add: ShutdownWarmContainersFor_def Let_def poolsNamed_cong [OF destroyAll_pools])
qed

lemma poolsNamed_ShutdownAllContainers:
  assumes "poolsNamed s" and "ShutdownAllContainers e s = Some s'"
  shows "poolsNamed s'"
proof -
  from assms(2) have "shutdownPools e (rangeOrder e (ContainerPools s)) s = Some s'"
    by (simp add: ShutdownAllContainers_def)
  from shutdownPools_pools [OF this] assms(1) show ?thesis
    by (auto simp: poolsNamed_def split: if_splits)
qed

end
